theory Spec2Isabelle
  imports Main
begin

section \<open>Calendar dates\<close>

text \<open>
  A JavaScript \<open>Date\<close> is modelled by its local calendar day (year, month 1..12, day of
  month) and its local time of day in whole minutes after midnight. Seconds and
  milliseconds are never changed by the operations below and are left out, as are changes
  of daylight saving time; the value \<open>Invalid Date\<close> is outside the model.
\<close>

datatype date = Date (year: int) (month: nat) (day: nat) (minutes: nat)

definition leap_year :: "int \<Rightarrow> bool" where
  "leap_year y = (y mod 4 = 0 \<and> (y mod 100 \<noteq> 0 \<or> y mod 400 = 0))"

definition days_in_month :: "int \<Rightarrow> nat \<Rightarrow> nat" where
  "days_in_month y m =
     (if m = 2 then (if leap_year y then 29 else 28)
      else if m = 4 \<or> m = 6 \<or> m = 9 \<or> m = 11 then 30
      else 31)"

definition valid_date :: "date \<Rightarrow> bool" where
  "valid_date d =
     (1 \<le> month d \<and> month d \<le> 12 \<and> 1 \<le> day d \<and> day d \<le> days_in_month (year d) (month d)
      \<and> minutes d < 1440)"

text \<open>The month after (before) a given month of a given year.\<close>

definition next_month :: "int \<times> nat \<Rightarrow> int \<times> nat" where
  "next_month ym = (case ym of (y, m) \<Rightarrow> if m \<ge> 12 then (y + 1, 1) else (y, m + 1))"

definition prev_month :: "int \<times> nat \<Rightarrow> int \<times> nat" where
  "prev_month ym = (case ym of (y, m) \<Rightarrow> if m \<le> 1 then (y - 1, 12) else (y, m - 1))"

text \<open>
  The day-of-month overflow of the JavaScript built-ins (\<open>MakeDay\<close>): a day number past the
  end of the month rolls into the following months; day 0 is the last day of the month
  before. The time of day \<open>t\<close> is kept.
\<close>

function roll_days :: "int \<Rightarrow> nat \<Rightarrow> nat \<Rightarrow> nat \<Rightarrow> date" where
  "roll_days y m d t =
     (if d = 0 then (case prev_month (y, m) of (y', m') \<Rightarrow> Date y' m' (days_in_month y' m') t)
      else if d > days_in_month y m
        then (case next_month (y, m) of (y', m') \<Rightarrow> roll_days y' m' (d - days_in_month y m) t)
      else Date y m d t)"
  by pat_completeness auto
termination
  by (relation "measure (\<lambda>(y, m, d, t). d)") (auto simp: days_in_month_def)

declare roll_days.simps [simp del]

text \<open>\<open>Date.prototype.getDate\<close> and \<open>Date.prototype.setDate\<close>.\<close>

definition getDate :: "date \<Rightarrow> nat" where
  "getDate dt = day dt"

definition setDate :: "date \<Rightarrow> nat \<Rightarrow> date" where
  "setDate dt n = roll_days (year dt) (month dt) n (minutes dt)"

text \<open>
  \<open>moment(date).add(amount, key).toDate()\<close> of the date library, which is not under src/,
  for the three unit keys that a recurrence can hold. The library reads the key \<open>d\<close> as
  days and the key \<open>w\<close> as weeks, both added to the day of the month with the time of day
  kept, and it reads the key \<open>m\<close> as minutes (its key for months is \<open>M\<close>), added to the
  time of day. Any other key is outside the model, which leaves the date as it is.
\<close>

definition add_minutes :: "date \<Rightarrow> nat \<Rightarrow> date" where
  "add_minutes dt n =
     roll_days (year dt) (month dt) (day dt + (minutes dt + n) div 1440) ((minutes dt + n) mod 1440)"

definition moment_add :: "date \<Rightarrow> nat \<Rightarrow> string \<Rightarrow> date" where
  "moment_add dt amt k =
     (if k = ''d'' then setDate dt (getDate dt + amt)
      else if k = ''w'' then setDate dt (getDate dt + 7 * amt)
      else if k = ''m'' then add_minutes dt amt
      else dt)"

section \<open>Decimal rendering\<close>

definition digit_char :: "nat \<Rightarrow> char" where
  "digit_char n = char_of (48 + n)"

fun string_of_nat :: "nat \<Rightarrow> string" where
  "string_of_nat n = (if n < 10 then [digit_char n] else string_of_nat (n div 10) @ [digit_char (n mod 10)])"

declare string_of_nat.simps [simp del]

definition is_digit :: "char \<Rightarrow> bool" where
  "is_digit c = ((48::nat) \<le> of_char c \<and> (of_char c :: nat) \<le> 57)"

definition digit_val :: "char \<Rightarrow> nat" where
  "digit_val c = of_char c - 48"

text \<open>
  Modelled from the spec: \<open>dateToString\<close> of \<open>shared/misc\<close>, which is not under src/.
  The date grammar of section 6: \<open>YYYY-MM-DD\<close>, zero padded.
\<close>

definition pad :: "nat \<Rightarrow> string \<Rightarrow> string" where
  "pad w s = replicate (w - length s) CHR ''0'' @ s"

definition dateToString :: "date \<Rightarrow> string" where
  "dateToString dt =
     pad 4 (string_of_nat (nat (year dt))) @ ''-'' @ pad 2 (string_of_nat (month dt)) @ ''-''
       @ pad 2 (string_of_nat (day dt))"

section \<open>Recurrence values\<close>

datatype error = TypeError

record TaskRecurrence =
  amount :: nat
  key :: string

text \<open>\<open>RECURRENCE_REGEXP = /^([1-7])(d|w|m)$/\<close>: the two captured groups, when the string matches.\<close>

definition is_amount_char :: "char \<Rightarrow> bool" where
  "is_amount_char c = ((49::nat) \<le> of_char c \<and> (of_char c :: nat) \<le> 55)"

definition is_unit_char :: "char \<Rightarrow> bool" where
  "is_unit_char c = (c = CHR ''d'' \<or> c = CHR ''w'' \<or> c = CHR ''m'')"

fun match_RECURRENCE_REGEXP :: "string \<Rightarrow> (string \<times> string) option" where
  "match_RECURRENCE_REGEXP [a, u] =
     (if is_amount_char a \<and> is_unit_char u then Some ([a], [u]) else None)"
| "match_RECURRENCE_REGEXP _ = None"

text \<open>
  The constructor reads \<open>match[1]\<close> and \<open>match[2]\<close> without testing \<open>match\<close>: on a string that
  does not match, \<open>match\<close> is \<open>null\<close> and the property access throws a \<open>TypeError\<close>.
\<close>

definition new_TaskRecurrence :: "string \<Rightarrow> error + TaskRecurrence" where
  "new_TaskRecurrence v =
     (case match_RECURRENCE_REGEXP v of
        None \<Rightarrow> Inl TypeError
      | Some (g1, g2) \<Rightarrow> Inr \<lparr>amount = digit_val (hd g1), key = g2\<rparr>)"

definition TaskRecurrence_toString :: "TaskRecurrence \<Rightarrow> string" where
  "TaskRecurrence_toString r = string_of_nat (amount r) @ key r"

definition addTo :: "TaskRecurrence \<Rightarrow> date \<Rightarrow> date" where
  "addTo r dt = moment_add dt (amount r) (key r)"

definition RECURRENCE_KEYS :: "string \<Rightarrow> string" where
  "RECURRENCE_KEYS k =
     (if k = ''d'' then ''day'' else if k = ''w'' then ''week'' else if k = ''m'' then ''month''
      else ''undefined'')"

definition display :: "TaskRecurrence \<Rightarrow> string" where
  "display r =
     ''every '' @ (if amount r > 1 then string_of_nat (amount r) @ '' '' else '''')
       @ RECURRENCE_KEYS (key r)"

section \<open>The recurrence extension\<close>

text \<open>
  Strings are lists of 8-bit characters, read as the code units 0..255. The class \<open>\s\<close> of
  a JavaScript regular expression holds, in that range, tab, line feed, vertical tab, form
  feed, carriage return, space and the no-break space.
\<close>

definition is_space :: "char \<Rightarrow> bool" where
  "is_space c = ((of_char c :: nat) \<in> {9, 10, 11, 12, 13, 32, 160})"

text \<open>
  \<open>RECURRENCE_TAG_REGEXP = /rec:([1-7](d|w|m))(\s|$)/\<close> matched at the start of a string:
  the captured group 1 and what follows the whole match.
\<close>

fun tag_here :: "string \<Rightarrow> (string \<times> string) option" where
  "tag_here (r # e # c # k # a # u # rest) =
     (if [r, e, c, k] = ''rec:'' \<and> is_amount_char a \<and> is_unit_char u
      then (case rest of
              [] \<Rightarrow> Some ([a, u], [])
            | s # rest' \<Rightarrow> if is_space s then Some ([a, u], rest') else None)
      else None)"
| "tag_here _ = None"

text \<open>
  \<open>RECURRENCE_TAG_REGEXP.exec(line)\<close>: the leftmost match, as the text before it, the
  captured group 1 and the text after it.
\<close>

fun exec_RECURRENCE_TAG_REGEXP :: "string \<Rightarrow> (string \<times> string \<times> string) option" where
  "exec_RECURRENCE_TAG_REGEXP [] = None"
| "exec_RECURRENCE_TAG_REGEXP (c # cs) =
     (case tag_here (c # cs) of
        Some (g1, rest) \<Rightarrow> Some ([], g1, rest)
      | None \<Rightarrow>
          (case exec_RECURRENCE_TAG_REGEXP cs of
             None \<Rightarrow> None
           | Some (pre, g1, rest) \<Rightarrow> Some (c # pre, g1, rest)))"

text \<open>
  \<open>RecurrenceExtension.prototype.parsingFunction\<close>: the three results are the recurrence,
  the line with the first tag removed, and the raw recurrence string; all three are \<open>null\<close>
  (\<open>None\<close>) when the line holds no tag.
\<close>

definition parsingFunction ::
  "string \<Rightarrow> error + (TaskRecurrence option \<times> string option \<times> string option)" where
  "parsingFunction line =
     (case exec_RECURRENCE_TAG_REGEXP line of
        Some (pre, g1, rest) \<Rightarrow>
          (case new_TaskRecurrence g1 of
             Inl e \<Rightarrow> Inl e
           | Inr r \<Rightarrow> Inr (Some r, Some (pre @ rest), Some g1))
      | None \<Rightarrow> Inr (None, None, None))"

section \<open>The todo.txt item and the line codec\<close>

text \<open>
  The fields of a \<open>TodoTxtItem\<close> that the task core reads and writes. A field that the
  source leaves \<open>null\<close>, or deletes, is \<open>None\<close>.
\<close>

record TodoTxtItem =
  text' :: string
  priority :: "string option"
  complete :: bool
  completed :: "date option"
  date :: "date option"
  contexts :: "string list option"
  projects :: "string list option"
  due :: "date option"
  dueString :: "string option"
  rec :: "TaskRecurrence option"
  recString :: "string option"

text \<open>Splitting a line at white space, and joining tokens with single spaces.\<close>

fun tokens_acc :: "string \<Rightarrow> string \<Rightarrow> string list" where
  "tokens_acc cur [] = (if cur = [] then [] else [cur])"
| "tokens_acc cur (c # cs) =
     (if is_space c then (if cur = [] then tokens_acc [] cs else cur # tokens_acc [] cs)
      else tokens_acc (cur @ [c]) cs)"

definition tokens :: "string \<Rightarrow> string list" where
  "tokens s = tokens_acc [] s"

fun unwords :: "string list \<Rightarrow> string" where
  "unwords [] = []"
| "unwords [w] = w"
| "unwords (w # ws) = w @ '' '' @ unwords ws"

text \<open>
  The date of the line grammar (section 6 of the specification) at the start of a string:
  four digits, month 01..12 and day 01..31, not validated further; a day past the end of
  the month passes through the date library's overflow. The result is the date, at
  midnight, and the rest of the string.
\<close>

definition num2 :: "char \<Rightarrow> char \<Rightarrow> nat" where
  "num2 a b = 10 * digit_val a + digit_val b"

fun read_date :: "string \<Rightarrow> (date \<times> string) option" where
  "read_date (y1 # y2 # y3 # y4 # h1 # m1 # m2 # h2 # d1 # d2 # rest) =
     (if list_all is_digit [y1, y2, y3, y4, m1, m2, d1, d2] \<and> h1 = CHR ''-'' \<and> h2 = CHR ''-''
         \<and> 1 \<le> num2 m1 m2 \<and> num2 m1 m2 \<le> 12 \<and> 1 \<le> num2 d1 d2 \<and> num2 d1 d2 \<le> 31
      then Some (roll_days (int (100 * num2 y1 y2 + num2 y3 y4)) (num2 m1 m2) (num2 d1 d2) 0, rest)
      else None)"
| "read_date _ = None"

text \<open>
  Modelled from the spec: the due-date extractor of the todo.txt library, which is not under
  src/. Section 4.1: a \<open>due:YYYY-MM-DD\<close> tag anywhere in the line, surrounded by white space
  or line boundaries; a match gives the date, the line without the tag and one adjacent
  white space, and the raw date string; a malformed date is no match.
\<close>

fun due_here :: "string \<Rightarrow> (date \<times> string \<times> string) option" where
  "due_here (d # u # e # k # rest) =
     (if [d, u, e, k] = ''due:''
      then (case read_date rest of
              None \<Rightarrow> None
            | Some (dt, []) \<Rightarrow> Some (dt, take 10 rest, [])
            | Some (dt, s # rest') \<Rightarrow> if is_space s then Some (dt, take 10 rest, s # rest') else None)
      else None)"
| "due_here _ = None"

fun due_search :: "bool \<Rightarrow> string \<Rightarrow> (string \<times> date \<times> string \<times> string) option" where
  "due_search b [] = None"
| "due_search b (c # cs) =
     (case (if b then due_here (c # cs) else None) of
        Some (dt, raw, rest) \<Rightarrow> Some ([], dt, raw, rest)
      | None \<Rightarrow>
          (case due_search (is_space c) cs of
             None \<Rightarrow> None
           | Some (pre, dt, raw, rest) \<Rightarrow> Some (c # pre, dt, raw, rest)))"

definition due_parsingFunction :: "string \<Rightarrow> date option \<times> string option \<times> string option" where
  "due_parsingFunction line =
     (case due_search True line of
        None \<Rightarrow> (None, None, None)
      | Some (pre, dt, raw, rest) \<Rightarrow>
          (Some dt,
           Some (case rest of
                   [] \<Rightarrow> (if pre \<noteq> [] \<and> is_space (last pre) then butlast pre else pre)
                 | s # rest' \<Rightarrow> pre @ rest'),
           Some raw))"

text \<open>The leading completion marker \<open>"x " date " "\<close> and priority marker \<open>"(" UPPER ") "\<close>.\<close>

definition strip_completion :: "string \<Rightarrow> bool \<times> date option \<times> string" where
  "strip_completion line =
     (case line of
        x # s # rest \<Rightarrow>
          (if x = CHR ''x'' \<and> s = CHR '' ''
           then (case read_date rest of
                   Some (dt, s' # rest') \<Rightarrow>
                     if s' = CHR '' '' then (True, Some dt, rest') else (False, None, line)
                 | _ \<Rightarrow> (False, None, line))
           else (False, None, line))
      | _ \<Rightarrow> (False, None, line))"

definition is_upper :: "char \<Rightarrow> bool" where
  "is_upper c = ((65::nat) \<le> of_char c \<and> (of_char c :: nat) \<le> 90)"

definition strip_priority :: "string \<Rightarrow> string option \<times> string" where
  "strip_priority line =
     (case line of
        l # p # r # s # rest \<Rightarrow>
          (if l = CHR ''('' \<and> is_upper p \<and> r = CHR '')'' \<and> s = CHR '' ''
           then (Some [p], rest) else (None, line))
      | _ \<Rightarrow> (None, line))"

text \<open>A \<open>+project\<close> or \<open>@context\<close> token: the marker and one or more characters other than \<open>+\<close>.\<close>

definition is_tag :: "char \<Rightarrow> string \<Rightarrow> bool" where
  "is_tag m t = (case t of [] \<Rightarrow> False | c # v \<Rightarrow> c = m \<and> v \<noteq> [] \<and> CHR ''+'' \<notin> set v)"

definition tag_values :: "char \<Rightarrow> string list \<Rightarrow> string list option" where
  "tag_values m ts =
     (let vs = map tl (filter (is_tag m) ts) in if vs = [] then None else Some vs)"

text \<open>
  Modelled from the spec: the constructor \<open>new TodoTxtItem(line, getExtensions())\<close> of the
  todo.txt library, which is not under src/. Section 4.3 (\<open>parse\<close>): strip the completion
  marker and the priority marker, run the extension registry (the due-date extractor, then
  the recurrence extractor on the residual line), collect the project and context tokens,
  and keep the remaining tokens, joined by single spaces, as the text. A fault thrown by an
  extractor is a fault of the constructor.
\<close>

definition new_TodoTxtItem :: "string \<Rightarrow> error + TodoTxtItem" where
  "new_TodoTxtItem line =
     (case strip_completion line of (cpl, cdate, l1) \<Rightarrow>
      case strip_priority l1 of (prio, l2) \<Rightarrow>
      case due_parsingFunction l2 of (dueV, dueLine, dueRaw) \<Rightarrow>
      let l3 = (case dueLine of None \<Rightarrow> l2 | Some l \<Rightarrow> l) in
      case parsingFunction l3 of
        Inl e \<Rightarrow> Inl e
      | Inr (recV, recLine, recRaw) \<Rightarrow>
          let l4 = (case recLine of None \<Rightarrow> l3 | Some l \<Rightarrow> l);
              ts = tokens l4
          in Inr \<lparr>text' = unwords (filter (\<lambda>t. \<not> is_tag CHR ''+'' t \<and> \<not> is_tag CHR ''@'' t) ts),
                  priority = prio, complete = cpl, completed = cdate, date = None,
                  contexts = tag_values CHR ''@'' ts, projects = tag_values CHR ''+'' ts,
                  due = dueV, dueString = dueRaw, rec = recV, recString = recRaw\<rparr>)"

text \<open>
  Modelled from the spec: \<open>TodoTxtItem.toString()\<close> of the todo.txt library, which is not
  under src/. Section 4.3 (\<open>serialize\<close>): the completion marker and date, the priority
  marker, the text, the project tags, the context tags, the due tag and the recurrence tag,
  in this order, each only when the field is set.
\<close>

definition tags_string :: "string \<Rightarrow> string list option \<Rightarrow> string" where
  "tags_string m vs = (case vs of None \<Rightarrow> [] | Some l \<Rightarrow> concat (map (\<lambda>v. m @ v) l))"

definition TodoTxtItem_toString :: "TodoTxtItem \<Rightarrow> string" where
  "TodoTxtItem_toString it =
     (case (complete it, completed it) of
        (True, Some d) \<Rightarrow> ''x '' @ dateToString d @ '' ''
      | _ \<Rightarrow> [])
     @ (case priority it of None \<Rightarrow> [] | Some p \<Rightarrow> ''('' @ p @ '') '')
     @ text' it
     @ tags_string '' +'' (projects it)
     @ tags_string '' @'' (contexts it)
     @ (case due it of None \<Rightarrow> [] | Some d \<Rightarrow> '' due:'' @ dateToString d)
     @ (case rec it of None \<Rightarrow> [] | Some r \<Rightarrow> '' rec:'' @ TaskRecurrence_toString r)"

section \<open>Tasks\<close>

text \<open>
  A \<open>Task\<close> object holds a reference to its \<open>TodoTxtItem\<close> object. The items live in a
  store: a map from references to items and the next free reference. The methods of \<open>Task\<close>
  that assign to fields of \<open>this.todoItem\<close> update the store at the task's reference.
\<close>

record store =
  items :: "nat \<Rightarrow> TodoTxtItem"
  next_ref :: nat

record Task =
  task_id :: "nat option"
  todoItem :: nat

definition alloc :: "TodoTxtItem \<Rightarrow> store \<Rightarrow> nat \<times> store" where
  "alloc it h = (next_ref h, \<lparr>items = (items h)(next_ref h := it), next_ref = next_ref h + 1\<rparr>)"

definition put :: "nat \<Rightarrow> TodoTxtItem \<Rightarrow> store \<Rightarrow> store" where
  "put a it h = h\<lparr>items := (items h)(a := it)\<rparr>"

definition new_Task :: "nat \<Rightarrow> Task" where
  "new_Task a = \<lparr>task_id = None, todoItem = a\<rparr>"

text \<open>
  The transfer record. Its interface declares five strings; \<open>toTaskData\<close> passes the item's
  priority through as it is, so that field can also hold \<open>null\<close> (\<open>None\<close>). A condition
  \<open>if (s)\<close> on a string holds when it is neither \<open>null\<close> nor empty.
\<close>

record TaskData =
  data_text :: string
  project :: string
  data_priority :: "string option"
  dueDate :: string
  recurrence :: string

definition truthy :: "string option \<Rightarrow> bool" where
  "truthy v = (case v of None \<Rightarrow> False | Some s \<Rightarrow> s \<noteq> [])"

text \<open>
  \<open>Task.create\<close>. The parameters are \<open>stringToDate\<close> of \<open>shared/misc\<close>, which is not under
  src/, and the value of \<open>new Date()\<close>. The item is built from the text by the library's
  constructor, and then overwritten field by field.
\<close>

definition create ::
  "(string \<Rightarrow> date) \<Rightarrow> date \<Rightarrow> TaskData \<Rightarrow> store \<Rightarrow> error + (Task \<times> store)" where
  "create stringToDate now taskData h =
     (case new_TodoTxtItem (data_text taskData) of
        Inl e \<Rightarrow> Inl e
      | Inr it0 \<Rightarrow>
          let it1 = it0\<lparr>date := Some now\<rparr>;
              it2 = (if project taskData \<noteq> [] then it1\<lparr>projects := Some [project taskData]\<rparr>
                     else it1);
              it3 = (if truthy (data_priority taskData)
                     then it2\<lparr>priority := data_priority taskData\<rparr> else it2);
              it4 = (if dueDate taskData \<noteq> []
                     then it3\<lparr>due := Some (stringToDate (dueDate taskData)),
                              dueString := Some (dueDate taskData)\<rparr>
                     else it3)
          in if recurrence taskData \<noteq> []
             then (case new_TaskRecurrence (recurrence taskData) of
                     Inl e \<Rightarrow> Inl e
                   | Inr r \<Rightarrow>
                       (case alloc (it4\<lparr>rec := Some r, recString := Some (recurrence taskData)\<rparr>) h
                        of (a, h') \<Rightarrow> Inr (new_Task a, h')))
             else (case alloc it4 h of (a, h') \<Rightarrow> Inr (new_Task a, h')))"

definition parse :: "string \<Rightarrow> store \<Rightarrow> error + (Task \<times> store)" where
  "parse line h =
     (case new_TodoTxtItem line of
        Inl e \<Rightarrow> Inl e
      | Inr it \<Rightarrow> (case alloc it h of (a, h') \<Rightarrow> Inr (new_Task a, h')))"

definition clone :: "Task \<Rightarrow> store \<Rightarrow> error + (Task \<times> store)" where
  "clone t h = parse (TodoTxtItem_toString (items h (todoItem t))) h"

text \<open>
  \<open>Task.update\<close>. When the recurrence constructor throws, the fields assigned before it
  stay assigned in the source; the model returns the fault alone.
\<close>

definition update :: "(string \<Rightarrow> date) \<Rightarrow> Task \<Rightarrow> TaskData \<Rightarrow> store \<Rightarrow> error + store" where
  "update stringToDate t taskData h =
     (let it0 = items h (todoItem t);
          it1 = it0\<lparr>text' := data_text taskData\<rparr>;
          it2 = (if project taskData \<noteq> [] then it1\<lparr>projects := Some [project taskData]\<rparr>
                 else it1\<lparr>projects := None\<rparr>);
          it3 = (if truthy (data_priority taskData)
                 then it2\<lparr>priority := data_priority taskData\<rparr> else it2\<lparr>priority := None\<rparr>);
          it4 = (if dueDate taskData \<noteq> []
                 then it3\<lparr>due := Some (stringToDate (dueDate taskData)),
                          dueString := Some (dueDate taskData)\<rparr>
                 else it3\<lparr>due := None, dueString := None\<rparr>)
      in if recurrence taskData \<noteq> []
         then (case new_TaskRecurrence (recurrence taskData) of
                 Inl e \<Rightarrow> Inl e
               | Inr r \<Rightarrow>
                   Inr (put (todoItem t)
                          (it4\<lparr>rec := Some r, recString := Some (recurrence taskData)\<rparr>) h))
         else Inr (put (todoItem t) (it4\<lparr>rec := None, recString := None\<rparr>) h))"

definition toTaskData :: "Task \<Rightarrow> store \<Rightarrow> TaskData" where
  "toTaskData t h =
     (let it = items h (todoItem t) in
      \<lparr>data_text = text' it,
       project = (case projects it of Some (p # ps) \<Rightarrow> p | _ \<Rightarrow> []),
       data_priority = priority it,
       dueDate = (case due it of Some d \<Rightarrow> dateToString d | None \<Rightarrow> []),
       recurrence = (case rec it of Some r \<Rightarrow> TaskRecurrence_toString r | None \<Rightarrow> [])\<rparr>)"

definition toggleComplete :: "date \<Rightarrow> Task \<Rightarrow> store \<Rightarrow> store" where
  "toggleComplete now t h =
     (let it = items h (todoItem t) in
      if \<not> complete it then put (todoItem t) (it\<lparr>complete := True, completed := Some now\<rparr>) h
      else put (todoItem t) (it\<lparr>complete := False, completed := None\<rparr>) h)"

definition postpone :: "Task \<Rightarrow> store \<Rightarrow> bool \<times> store" where
  "postpone t h =
     (let it = items h (todoItem t) in
      case due it of
        None \<Rightarrow> (False, h)
      | Some d \<Rightarrow>
          let newDueDate = setDate d (getDate d + 1) in
          (True, put (todoItem t)
                   (it\<lparr>due := Some newDueDate, dueString := Some (dateToString newDueDate)\<rparr>) h))"

text \<open>\<open>Task.recur\<close>: the result is \<open>undefined\<close> (\<open>None\<close>) when the due date or the recurrence is missing.\<close>

definition recur :: "Task \<Rightarrow> store \<Rightarrow> error + (Task option \<times> store)" where
  "recur t h =
     (let it = items h (todoItem t) in
      case (due it, rec it) of
        (Some d, Some r) \<Rightarrow>
          let newDueDate = addTo r d in
          (case clone t h of
             Inl e \<Rightarrow> Inl e
           | Inr (newTask, h1) \<Rightarrow>
               let a = todoItem newTask;
                   h2 = put a ((items h1 a)\<lparr>due := Some newDueDate\<rparr>) h1;
                   h3 = put a ((items h2 a)\<lparr>dueString := Some (dateToString newDueDate)\<rparr>) h2
               in Inr (Some newTask, h3))
      | _ \<Rightarrow> Inr (None, h))"

section \<open>Notions of the specification\<close>

text \<open>The day after a calendar date, by the calendar itself, at the same time of day.\<close>

definition calendar_successor :: "date \<Rightarrow> date" where
  "calendar_successor dt =
     (if day dt < days_in_month (year dt) (month dt)
      then Date (year dt) (month dt) (day dt + 1) (minutes dt)
      else if month dt < 12 then Date (year dt) (month dt + 1) 1 (minutes dt)
      else Date (year dt + 1) 1 1 (minutes dt))"

text \<open>An item with every field unset, and a store that holds one item at reference 0.\<close>

definition blank_item :: TodoTxtItem where
  "blank_item = \<lparr>text' = [], priority = None, complete = False, completed = None, date = None,
     contexts = None, projects = None, due = None, dueString = None, rec = None,
     recString = None\<rparr>"

definition store_of :: "TodoTxtItem \<Rightarrow> store" where
  "store_of it = \<lparr>items = (\<lambda>a. it), next_ref = 1\<rparr>"

text \<open>The store before any item is allocated.\<close>

definition empty_store :: store where
  "empty_store = \<lparr>items = (\<lambda>a. blank_item), next_ref = 0\<rparr>"

text \<open>
  The invariant of section 3: the completion date is present exactly when the task is
  complete; for one item, and for every item allocated in a store.
\<close>

definition completion_inv :: "TodoTxtItem \<Rightarrow> bool" where
  "completion_inv it = ((completed it \<noteq> None) = complete it)"

definition store_inv :: "store \<Rightarrow> bool" where
  "store_inv h = (\<forall>a < next_ref h. completion_inv (items h a))"

text \<open>
  The stores that the operations of the task core produce, starting without any item. A
  task is any reference to an allocated item.
\<close>

inductive reachable :: "store \<Rightarrow> bool" where
  start: "next_ref h = 0 \<Longrightarrow> reachable h"
| by_parse: "reachable h \<Longrightarrow> parse line h = Inr (t, h') \<Longrightarrow> reachable h'"
| by_create: "reachable h \<Longrightarrow> create stringToDate now taskData h = Inr (t, h') \<Longrightarrow> reachable h'"
| by_update: "reachable h \<Longrightarrow> todoItem t < next_ref h \<Longrightarrow>
     update stringToDate t taskData h = Inr h' \<Longrightarrow> reachable h'"
| by_toggleComplete: "reachable h \<Longrightarrow> todoItem t < next_ref h \<Longrightarrow>
     reachable (toggleComplete now t h)"
| by_postpone: "reachable h \<Longrightarrow> todoItem t < next_ref h \<Longrightarrow> reachable (snd (postpone t h))"
| by_recur: "reachable h \<Longrightarrow> todoItem t < next_ref h \<Longrightarrow> recur t h = Inr (r, h') \<Longrightarrow>
     reachable h'"

text \<open>
  Modelled from the spec: \<open>stringToDate\<close> of \<open>shared/misc\<close>, which is not under src/. On
  a string of the date grammar of section 6 it is the date read, a day past the end of the
  month passing through the date library's overflow. The specification says nothing about
  other strings; this model gives the first day of the year 0 there. The operations take
  \<open>stringToDate\<close> as a parameter, and this function is used for concrete inputs only.
\<close>

definition stringToDate_iso :: "string \<Rightarrow> date" where
  "stringToDate_iso s = (case read_date s of Some (dt, rest) \<Rightarrow> dt | None \<Rightarrow> Date 0 1 1 0)"

text \<open>An item that recurs: due on 2024-01-31, with a recurrence of \<open>n\<close> units \<open>k\<close>.\<close>

definition recurring_item :: "nat \<Rightarrow> string \<Rightarrow> TodoTxtItem" where
  "recurring_item n k = blank_item\<lparr>text' := ''Pay rent'', due := Some (Date 2024 1 31 0),
     dueString := Some ''2024-01-31'', rec := Some \<lparr>amount = n, key = k\<rparr>,
     recString := Some (string_of_nat n @ k)\<rparr>"

text \<open>The due string of an item is the rendering of its due date; both are absent together.\<close>

definition due_agrees :: "TodoTxtItem \<Rightarrow> bool" where
  "due_agrees it =
     (case due it of None \<Rightarrow> dueString it = None | Some d \<Rightarrow> dueString it = Some (dateToString d))"


text \<open>
  The number of positions of a line at which the recurrence tag pattern matches, and the
  condition that the leftmost match of the pattern, if there is one, starts the line or
  follows a white space.
\<close>

fun count_tags :: "string \<Rightarrow> nat" where
  "count_tags [] = 0"
| "count_tags (c # cs) = (if tag_here (c # cs) = None then 0 else 1) + count_tags cs"

definition tag_starts_token :: "string \<Rightarrow> bool" where
  "tag_starts_token line =
     (case exec_RECURRENCE_TAG_REGEXP line of
        None \<Rightarrow> True
      | Some (pre, g, rest) \<Rightarrow> pre = [] \<or> is_space (last pre))"

text \<open>
  The number of positions of a line at which a due-date tag stands, for a line that follows
  a boundary when \<open>b\<close> holds; and the boundary flag after the characters \<open>q\<close>.
\<close>

fun count_due :: "bool \<Rightarrow> string \<Rightarrow> nat" where
  "count_due b [] = 0"
| "count_due b (c # cs) =
     (if b \<and> due_here (c # cs) \<noteq> None then 1 else 0) + count_due (is_space c) cs"

definition boundary_before :: "bool \<Rightarrow> string \<Rightarrow> bool" where
  "boundary_before b q = (if q = [] then b else is_space (last q))"

section \<open>Calendar arithmetic\<close>

lemma days_in_month_pos: "1 \<le> days_in_month y m"
  by (simp add: days_in_month_def)

lemma roll_days_in_month:
  "1 \<le> k \<Longrightarrow> k \<le> days_in_month y m \<Longrightarrow> roll_days y m k t = Date y m k t"
  by (subst roll_days.simps) simp

lemma roll_days_over:
  "days_in_month y m < k \<Longrightarrow>
     roll_days y m k t =
       roll_days (fst (next_month (y, m))) (snd (next_month (y, m))) (k - days_in_month y m) t"
  using days_in_month_pos [of y m]
  by (subst roll_days.simps) (simp split: prod.splits)

lemma valid_calendar_successor: "valid_date d \<Longrightarrow> valid_date (calendar_successor d)"
  using days_in_month_pos
  by (auto simp: valid_date_def calendar_successor_def)

lemma setDate_successor:
  assumes "valid_date d"
  shows "setDate d (getDate d + 1) = calendar_successor d"
proof (cases "day d < days_in_month (year d) (month d)")
  case True
  then show ?thesis
    by (simp add: setDate_def getDate_def calendar_successor_def roll_days_in_month)
next
  case False
  with assms have eq: "day d = days_in_month (year d) (month d)"
    by (simp add: valid_date_def)
  have "roll_days (year d) (month d) (day d + 1) (minutes d) =
      roll_days (fst (next_month (year d, month d))) (snd (next_month (year d, month d))) 1
        (minutes d)"
    using roll_days_over [of "year d" "month d" "day d + 1" "minutes d"] eq by simp
  also have "\<dots> =
      Date (fst (next_month (year d, month d))) (snd (next_month (year d, month d))) 1 (minutes d)"
    by (rule roll_days_in_month) (use days_in_month_pos in auto)
  finally show ?thesis
    using False assms
    by (auto simp: setDate_def getDate_def calendar_successor_def next_month_def valid_date_def)
qed

section \<open>Postponing\<close>

text \<open>
  Claim C7. \<open>postpone\<close> has no fault and returns a boolean. On a task without a due date it
  returns \<open>false\<close> and the store is as before. On a task whose due date is a calendar date
  it returns \<open>true\<close>; afterwards the due date read from the task's item is the next calendar
  day (the first of the next month after the last day of a month), the due string read from
  it is the rendering of the new date, the other fields of the item are as before, and so
  are all other items of the store.
\<close>

theorem postpone_advances_one_day:
  "(due (items h (todoItem t)) = None \<longrightarrow> postpone t h = (False, h)) \<and>
   (\<forall>d. due (items h (todoItem t)) = Some d \<longrightarrow> valid_date d \<longrightarrow>
      fst (postpone t h) = True
      \<and> due (items (snd (postpone t h)) (todoItem t)) = Some (calendar_successor d)
      \<and> dueString (items (snd (postpone t h)) (todoItem t))
          = Some (dateToString (calendar_successor d))
      \<and> items (snd (postpone t h)) (todoItem t) =
          (items h (todoItem t))\<lparr>due := Some (calendar_successor d),
             dueString := Some (dateToString (calendar_successor d))\<rparr>
      \<and> (\<forall>a. a \<noteq> todoItem t \<longrightarrow> items (snd (postpone t h)) a = items h a)
      \<and> next_ref (snd (postpone t h)) = next_ref h
      \<and> valid_date (calendar_successor d))"
  by (simp add: postpone_def Let_def put_def setDate_successor [simplified]
      valid_calendar_successor)

text \<open>A task due on 2024-01-31 is due on 2024-02-01 afterwards; a task without due date is as before.\<close>

theorem postpone_advances_one_day_witness:
  "due (items (store_of (blank_item\<lparr>due := Some (Date 2024 1 31 0)\<rparr>)) (todoItem (new_Task 0)))
      = Some (Date 2024 1 31 0)
   \<and> valid_date (Date 2024 1 31 0)
   \<and> fst (postpone (new_Task 0) (store_of (blank_item\<lparr>due := Some (Date 2024 1 31 0)\<rparr>))) = True
   \<and> due (items (snd (postpone (new_Task 0)
          (store_of (blank_item\<lparr>due := Some (Date 2024 1 31 0)\<rparr>)))) (todoItem (new_Task 0)))
       = Some (Date 2024 2 1 0)
   \<and> dueString (items (snd (postpone (new_Task 0)
          (store_of (blank_item\<lparr>due := Some (Date 2024 1 31 0)\<rparr>)))) (todoItem (new_Task 0)))
       = Some ''2024-02-01''
   \<and> due (items (store_of blank_item) (todoItem (new_Task 0))) = None
   \<and> postpone (new_Task 0) (store_of blank_item) = (False, store_of blank_item)"
proof -
  let ?it = "blank_item\<lparr>due := Some (Date 2024 1 31 0)\<rparr>"
  have v: "valid_date (Date 2024 1 31 0)"
    by (simp add: valid_date_def days_in_month_def)
  have s: "calendar_successor (Date 2024 1 31 0) = Date 2024 2 1 0"
    by (simp add: calendar_successor_def days_in_month_def)
  have r: "dateToString (Date 2024 2 1 0) = ''2024-02-01''"
    by code_simp
  have d1: "due (items (store_of ?it) (todoItem (new_Task 0))) = Some (Date 2024 1 31 0)"
    by (simp add: store_of_def)
  have d2: "due (items (store_of blank_item) (todoItem (new_Task 0))) = None"
    by (simp add: store_of_def blank_item_def)
  note T = postpone_advances_one_day [of "store_of ?it" "new_Task 0", THEN conjunct2, THEN spec,
        of "Date 2024 1 31 0", THEN mp, OF d1, THEN mp, OF v]
  have p0: "fst (postpone (new_Task 0) (store_of ?it)) = True"
    by (rule T [THEN conjunct1])
  have p1: "due (items (snd (postpone (new_Task 0) (store_of ?it))) (todoItem (new_Task 0)))
      = Some (Date 2024 2 1 0)"
    using T [THEN conjunct2, THEN conjunct1] unfolding s .
  have p2: "dueString (items (snd (postpone (new_Task 0) (store_of ?it))) (todoItem (new_Task 0)))
      = Some ''2024-02-01''"
    using T [THEN conjunct2, THEN conjunct2, THEN conjunct1] unfolding s r .
  have p3: "postpone (new_Task 0) (store_of blank_item) = (False, store_of blank_item)"
    using postpone_advances_one_day [of "store_of blank_item" "new_Task 0", THEN conjunct1, THEN mp, OF d2] .
  from d1 v p0 p1 p2 d2 p3 show ?thesis by (intro conjI)
qed

section \<open>The recurrence extractor and the constructor have no fault\<close>

lemma tag_here_groups:
  "tag_here s = Some (g, rest) \<Longrightarrow> \<exists>a u. g = [a, u] \<and> is_amount_char a \<and> is_unit_char u"
  by (induction s rule: tag_here.induct) (auto split: if_splits list.splits)

lemma exec_groups:
  "exec_RECURRENCE_TAG_REGEXP s = Some (pre, g, rest) \<Longrightarrow>
     \<exists>a u. g = [a, u] \<and> is_amount_char a \<and> is_unit_char u"
proof (induction s arbitrary: pre)
  case Nil
  then show ?case by simp
next
  case (Cons c cs)
  show ?case
  proof (cases "tag_here (c # cs)")
    case None
    with Cons.prems obtain pre' where "exec_RECURRENCE_TAG_REGEXP cs = Some (pre', g, rest)"
      by (auto split: option.splits)
    then show ?thesis by (rule Cons.IH)
  next
    case (Some p)
    with Cons.prems have "tag_here (c # cs) = Some (g, rest)"
      by (auto split: option.splits prod.splits)
    then show ?thesis by (rule tag_here_groups)
  qed
qed

lemma new_TaskRecurrence_ok:
  "is_amount_char a \<Longrightarrow> is_unit_char u \<Longrightarrow>
     new_TaskRecurrence [a, u] = Inr \<lparr>amount = digit_val a, key = [u]\<rparr>"
  by (simp add: new_TaskRecurrence_def)

lemma parsingFunction_no_fault: "\<exists>r. parsingFunction line = Inr r"
proof (cases "exec_RECURRENCE_TAG_REGEXP line")
  case None
  then show ?thesis by (simp add: parsingFunction_def)
next
  case (Some p)
  obtain pre g rest where p: "p = (pre, g, rest)" by (cases p)
  from exec_groups [of line pre g rest] Some p
  obtain a u where "g = [a, u]" "is_amount_char a" "is_unit_char u" by auto
  with Some p show ?thesis
    by (simp add: parsingFunction_def new_TaskRecurrence_ok)
qed

lemma new_TodoTxtItem_no_fault: "\<exists>it. new_TodoTxtItem line = Inr it"
proof -
  obtain cpl cdate l1 where a: "strip_completion line = (cpl, cdate, l1)"
    by (cases "strip_completion line")
  obtain prio l2 where b: "strip_priority l1 = (prio, l2)"
    by (cases "strip_priority l1")
  obtain dueV dueLine dueRaw where c: "due_parsingFunction l2 = (dueV, dueLine, dueRaw)"
    by (cases "due_parsingFunction l2")
  obtain r where "parsingFunction (case dueLine of None \<Rightarrow> l2 | Some l \<Rightarrow> l) = Inr r"
    using parsingFunction_no_fault by blast
  then show ?thesis
    by (cases r) (simp add: new_TodoTxtItem_def a b c Let_def)
qed

section \<open>Completion state\<close>

lemma strip_completion_inv:
  "strip_completion line = (cpl, cdate, l) \<Longrightarrow> (cdate \<noteq> None) = cpl"
  by (auto simp: strip_completion_def split: list.splits if_splits option.splits prod.splits)

lemma new_TodoTxtItem_inv:
  assumes "new_TodoTxtItem line = Inr it"
  shows "completion_inv it"
proof -
  obtain cpl cdate l1 where a: "strip_completion line = (cpl, cdate, l1)"
    by (cases "strip_completion line")
  from assms have "complete it = cpl \<and> completed it = cdate"
    by (auto simp: new_TodoTxtItem_def a Let_def split: prod.splits sum.splits)
  with strip_completion_inv [OF a] show ?thesis
    by (simp add: completion_inv_def)
qed

lemma store_inv_alloc:
  "store_inv h \<Longrightarrow> completion_inv it \<Longrightarrow> alloc it h = (a, h') \<Longrightarrow> store_inv h'"
  by (auto simp: store_inv_def alloc_def)

lemma store_inv_put:
  "store_inv h \<Longrightarrow> completion_inv it \<Longrightarrow> store_inv (put a it h)"
  by (auto simp: store_inv_def put_def)

lemma store_inv_parse:
  assumes "store_inv h" "parse line h = Inr (t, h')"
  shows "store_inv h'"
proof -
  from assms(2) obtain it a where it: "new_TodoTxtItem line = Inr it" and al: "alloc it h = (a, h')"
    by (auto simp: parse_def split: sum.splits prod.splits)
  from store_inv_alloc [OF assms(1) new_TodoTxtItem_inv [OF it] al] show ?thesis .
qed

lemma store_inv_create:
  assumes "store_inv h" "create stringToDate now taskData h = Inr (t, h')"
  shows "store_inv h'"
proof -
  from assms(2) obtain it0 it a where it0: "new_TodoTxtItem (data_text taskData) = Inr it0"
    and al: "alloc it h = (a, h')"
    and c: "complete it = complete it0" "completed it = completed it0"
    by (auto simp: create_def Let_def split: sum.splits prod.splits if_splits)
  from new_TodoTxtItem_inv [OF it0] c have "completion_inv it"
    by (simp add: completion_inv_def)
  from store_inv_alloc [OF assms(1) this al] show ?thesis .
qed


lemma store_inv_update:
  assumes "store_inv h" "todoItem t < next_ref h" "update stringToDate t taskData h = Inr h'"
  shows "store_inv h'"
proof -
  from assms(3) obtain it where h': "h' = put (todoItem t) it h"
    and c: "complete it = complete (items h (todoItem t))"
      "completed it = completed (items h (todoItem t))"
    by (auto simp: update_def Let_def split: sum.splits if_splits)
  from assms(1,2) have "completion_inv (items h (todoItem t))"
    by (simp add: store_inv_def)
  with c have "completion_inv it"
    by (simp add: completion_inv_def)
  with assms(1) show ?thesis
    unfolding h' by (rule store_inv_put)
qed

lemma toggleComplete_item:
  "items (toggleComplete now t h) (todoItem t) =
     (if \<not> complete (items h (todoItem t))
      then (items h (todoItem t))\<lparr>complete := True, completed := Some now\<rparr>
      else (items h (todoItem t))\<lparr>complete := False, completed := None\<rparr>)"
  by (simp add: toggleComplete_def Let_def put_def)

lemma toggleComplete_inv: "completion_inv (items (toggleComplete now t h) (todoItem t))"
  by (simp add: toggleComplete_item completion_inv_def)

lemma store_inv_toggleComplete: "store_inv h \<Longrightarrow> store_inv (toggleComplete now t h)"
  by (auto simp: toggleComplete_def Let_def store_inv_def put_def completion_inv_def)

lemma store_inv_postpone:
  "store_inv h \<Longrightarrow> todoItem t < next_ref h \<Longrightarrow> store_inv (snd (postpone t h))"
  by (auto simp: postpone_def Let_def store_inv_def put_def completion_inv_def split: option.splits)

lemma store_inv_recur:
  assumes "store_inv h" "recur t h = Inr (r, h')"
  shows "store_inv h'"
proof (cases "\<exists>d r'. due (items h (todoItem t)) = Some d \<and> rec (items h (todoItem t)) = Some r'")
  case False
  with assms(2) have "h' = h"
    by (auto simp: recur_def Let_def split: option.splits)
  with assms(1) show ?thesis by simp
next
  case True
  then obtain d r' where dr: "due (items h (todoItem t)) = Some d" "rec (items h (todoItem t)) = Some r'"
    by blast
  from assms(2) dr obtain newTask h1 where cl: "clone t h = Inr (newTask, h1)"
    and h': "h' = put (todoItem newTask)
        ((items (put (todoItem newTask) ((items h1 (todoItem newTask))\<lparr>due := Some (addTo r' d)\<rparr>) h1)
            (todoItem newTask))\<lparr>dueString := Some (dateToString (addTo r' d))\<rparr>)
        (put (todoItem newTask) ((items h1 (todoItem newTask))\<lparr>due := Some (addTo r' d)\<rparr>) h1)"
    by (auto simp: recur_def Let_def split: sum.splits prod.splits)
  from cl assms(1) have i1: "store_inv h1"
    unfolding clone_def by (rule store_inv_parse [rotated])
  from cl have "todoItem newTask < next_ref h1"
    by (auto simp: clone_def parse_def alloc_def new_Task_def split: sum.splits)
  with i1 have "completion_inv (items h1 (todoItem newTask))"
    by (simp add: store_inv_def)
  with i1 show ?thesis
    unfolding h' by (auto simp: store_inv_def put_def completion_inv_def)
qed

lemma reachable_store_inv: "reachable h \<Longrightarrow> store_inv h"
proof (induction rule: reachable.induct)
  case (start h)
  then show ?case by (simp add: store_inv_def)
next
  case (by_parse h line t h')
  then show ?case by (blast intro: store_inv_parse)
next
  case (by_create h stringToDate now taskData t h')
  then show ?case by (blast intro: store_inv_create)
next
  case (by_update h t stringToDate taskData h')
  then show ?case by (blast intro: store_inv_update)
next
  case (by_toggleComplete h t now)
  then show ?case by (blast intro: store_inv_toggleComplete)
next
  case (by_postpone h t)
  then show ?case by (blast intro: store_inv_postpone)
next
  case (by_recur h t r h')
  then show ?case by (blast intro: store_inv_recur)
qed

text \<open>
  Claim C9. Every item of a store that the operations produce has its completion date
  present exactly when it is complete. \<open>toggleComplete\<close> gives an item that satisfies this,
  whatever the item was before: an incomplete task becomes complete with the completion
  date \<open>now\<close>, a complete task becomes incomplete without a completion date. After two
  calls the \<open>complete\<close> flag is the original one, and the completion date is present exactly
  when it was present originally, for an item that satisfied the invariant.
\<close>

theorem toggleComplete_invariant:
  "(reachable h \<longrightarrow> (\<forall>a < next_ref h. completion_inv (items h a)))
   \<and> completion_inv (items (toggleComplete now t h) (todoItem t))
   \<and> (\<not> complete (items h (todoItem t)) \<longrightarrow>
        items (toggleComplete now t h) (todoItem t) =
          (items h (todoItem t))\<lparr>complete := True, completed := Some now\<rparr>)
   \<and> (complete (items h (todoItem t)) \<longrightarrow>
        items (toggleComplete now t h) (todoItem t) =
          (items h (todoItem t))\<lparr>complete := False, completed := None\<rparr>)
   \<and> complete (items (toggleComplete now' t (toggleComplete now t h)) (todoItem t)) =
        complete (items h (todoItem t))
   \<and> (completion_inv (items h (todoItem t)) \<longrightarrow>
        (completed (items (toggleComplete now' t (toggleComplete now t h)) (todoItem t)) = None) =
        (completed (items h (todoItem t)) = None))"
proof -
  have 1: "reachable h \<longrightarrow> (\<forall>a < next_ref h. completion_inv (items h a))"
    using reachable_store_inv [of h] by (simp add: store_inv_def)
  have 2: "completion_inv (items (toggleComplete now t h) (todoItem t))"
    by (rule toggleComplete_inv)
  have 3: "\<not> complete (items h (todoItem t)) \<longrightarrow>
        items (toggleComplete now t h) (todoItem t) =
          (items h (todoItem t))\<lparr>complete := True, completed := Some now\<rparr>"
    by (simp add: toggleComplete_item)
  have 4: "complete (items h (todoItem t)) \<longrightarrow>
        items (toggleComplete now t h) (todoItem t) =
          (items h (todoItem t))\<lparr>complete := False, completed := None\<rparr>"
    by (simp add: toggleComplete_item)
  have 5: "complete (items (toggleComplete now' t (toggleComplete now t h)) (todoItem t)) =
        complete (items h (todoItem t))"
    by (simp add: toggleComplete_item)
  have 6: "completion_inv (items h (todoItem t)) \<longrightarrow>
        (completed (items (toggleComplete now' t (toggleComplete now t h)) (todoItem t)) = None) =
        (completed (items h (todoItem t)) = None)"
    by (auto simp: toggleComplete_item completion_inv_def)
  from 1 2 3 4 5 6 show ?thesis by (intro conjI)
qed


lemma parse_pay_rent:
  "new_TodoTxtItem ''Pay rent'' = Inr (blank_item\<lparr>text' := ''Pay rent''\<rparr>)"
  by code_simp

lemma parse_done_pay_rent:
  "new_TodoTxtItem ''x 2024-01-05 Pay rent'' =
     Inr (blank_item\<lparr>text' := ''Pay rent'', complete := True, completed := Some (Date 2024 1 5 0)\<rparr>)"
  by code_simp

theorem toggleComplete_invariant_witness:
  "reachable (snd (alloc (blank_item\<lparr>text' := ''Pay rent''\<rparr>) empty_store))
   \<and> 0 < next_ref (snd (alloc (blank_item\<lparr>text' := ''Pay rent''\<rparr>) empty_store))
   \<and> completion_inv (items (snd (alloc (blank_item\<lparr>text' := ''Pay rent''\<rparr>) empty_store)) 0)
   \<and> \<not> complete (items (snd (alloc (blank_item\<lparr>text' := ''Pay rent''\<rparr>) empty_store)) 0)
   \<and> items (toggleComplete (Date 2024 3 1 0) (new_Task 0)
         (snd (alloc (blank_item\<lparr>text' := ''Pay rent''\<rparr>) empty_store))) 0 =
        blank_item\<lparr>text' := ''Pay rent'', complete := True, completed := Some (Date 2024 3 1 0)\<rparr>
   \<and> completed (items (toggleComplete (Date 2024 3 2 0) (new_Task 0)
         (toggleComplete (Date 2024 3 1 0) (new_Task 0)
            (snd (alloc (blank_item\<lparr>text' := ''Pay rent''\<rparr>) empty_store)))) 0) = None
   \<and> complete (items (store_of (blank_item\<lparr>complete := True, completed := Some (Date 2024 1 5 0)\<rparr>)) 0)
   \<and> items (toggleComplete (Date 2024 3 1 0) (new_Task 0)
         (store_of (blank_item\<lparr>complete := True, completed := Some (Date 2024 1 5 0)\<rparr>))) 0 =
        blank_item\<lparr>complete := False, completed := None\<rparr>"
proof -
  let ?it = "blank_item\<lparr>text' := ''Pay rent''\<rparr>"
  let ?h = "snd (alloc ?it empty_store)"
  let ?itB = "blank_item\<lparr>complete := True, completed := Some (Date 2024 1 5 0)\<rparr>"
  note A = toggleComplete_invariant [of ?h "Date 2024 3 1 0" "new_Task 0" "Date 2024 3 2 0"]
  note B = toggleComplete_invariant [of "store_of ?itB" "Date 2024 3 1 0" "new_Task 0" "Date 2024 3 2 0"]
  have a: "todoItem (new_Task 0) = 0"
    by (simp add: new_Task_def)
  have i: "items ?h 0 = ?it" and n: "next_ref ?h = 1"
    by (simp_all add: alloc_def empty_store_def)
  have iB: "items (store_of ?itB) 0 = ?itB"
    by (simp add: store_of_def)
  have "parse ''Pay rent'' empty_store = Inr (new_Task 0, ?h)"
    by (simp add: parse_def parse_pay_rent alloc_def empty_store_def)
  with start [of empty_store] have r: "reachable ?h"
    by (auto intro: by_parse simp: empty_store_def)
  have p: "0 < next_ref ?h"
    unfolding n by simp
  from A [THEN conjunct1, THEN mp, OF r, THEN spec, of 0, THEN mp, OF p]
  have c: "completion_inv (items ?h 0)" .
  have nc: "\<not> complete (items ?h (todoItem (new_Task 0)))"
    unfolding a i by (simp add: blank_item_def)
  from A [THEN conjunct2, THEN conjunct2, THEN conjunct1, THEN mp, OF nc]
  have t1: "items (toggleComplete (Date 2024 3 1 0) (new_Task 0) ?h) 0 =
      ?it\<lparr>complete := True, completed := Some (Date 2024 3 1 0)\<rparr>"
    unfolding a i .
  from c have c': "completion_inv (items ?h (todoItem (new_Task 0)))"
    unfolding a .
  from A [THEN conjunct2, THEN conjunct2, THEN conjunct2, THEN conjunct2, THEN conjunct2,
      THEN mp, OF c']
  have t2: "completed (items (toggleComplete (Date 2024 3 2 0) (new_Task 0)
         (toggleComplete (Date 2024 3 1 0) (new_Task 0) ?h)) 0) = None"
    unfolding a i by (simp add: blank_item_def)
  have cB: "complete (items (store_of ?itB) (todoItem (new_Task 0)))"
    unfolding a iB by simp
  from B [THEN conjunct2, THEN conjunct2, THEN conjunct2, THEN conjunct1, THEN mp, OF cB]
  have t3: "items (toggleComplete (Date 2024 3 1 0) (new_Task 0) (store_of ?itB)) 0 =
      ?itB\<lparr>complete := False, completed := None\<rparr>"
    unfolding a iB .
  have e3: "?itB\<lparr>complete := False, completed := None\<rparr> =
      blank_item\<lparr>complete := False, completed := None\<rparr>"
    by simp
  from nc have nc': "\<not> complete (items ?h 0)" unfolding a .
  from cB have cB': "complete (items (store_of ?itB) 0)" unfolding a .
  from r p c nc' t1 t2 cB' t3 [unfolded e3] show ?thesis
    by (intro conjI)
qed

section \<open>Faults of create and update\<close>

lemma new_TaskRecurrence_match:
  "match_RECURRENCE_REGEXP v \<noteq> None \<Longrightarrow>
     new_TaskRecurrence v = Inr \<lparr>amount = digit_val (hd v), key = tl v\<rparr>"
  by (induction v rule: match_RECURRENCE_REGEXP.induct)
     (auto simp: new_TaskRecurrence_def split: if_splits)

lemma new_TaskRecurrence_no_match:
  "match_RECURRENCE_REGEXP v = None \<Longrightarrow> new_TaskRecurrence v = Inl TypeError"
  by (simp add: new_TaskRecurrence_def)

lemma create_ok:
  assumes "recurrence taskData = [] \<or> match_RECURRENCE_REGEXP (recurrence taskData) \<noteq> None"
  shows "\<exists>t' h'. create stringToDate now taskData h = Inr (t', h')"
proof -
  obtain it0 where it0: "new_TodoTxtItem (data_text taskData) = Inr it0"
    using new_TodoTxtItem_no_fault by blast
  show ?thesis
  proof (cases "recurrence taskData = []")
    case True
    then show ?thesis
      by (simp add: create_def it0 Let_def alloc_def)
  next
    case False
    with assms have "match_RECURRENCE_REGEXP (recurrence taskData) \<noteq> None" by simp
    from new_TaskRecurrence_match [OF this] False show ?thesis
      by (simp add: create_def it0 Let_def alloc_def)
  qed
qed

lemma update_ok:
  assumes "recurrence taskData = [] \<or> match_RECURRENCE_REGEXP (recurrence taskData) \<noteq> None"
  shows "\<exists>h'. update stringToDate t taskData h = Inr h'"
proof (cases "recurrence taskData = []")
  case True
  then show ?thesis
    by (simp add: update_def Let_def)
next
  case False
  with assms have "match_RECURRENCE_REGEXP (recurrence taskData) \<noteq> None" by simp
  from new_TaskRecurrence_match [OF this] False show ?thesis
    by (simp add: update_def Let_def)
qed

lemma create_fault:
  assumes "recurrence taskData \<noteq> []" "match_RECURRENCE_REGEXP (recurrence taskData) = None"
  shows "create stringToDate now taskData h = Inl TypeError"
proof -
  obtain it0 where it0: "new_TodoTxtItem (data_text taskData) = Inr it0"
    using new_TodoTxtItem_no_fault by blast
  from assms new_TaskRecurrence_no_match [OF assms(2)] show ?thesis
    by (simp add: create_def it0 Let_def)
qed

lemma update_fault:
  assumes "recurrence taskData \<noteq> []" "match_RECURRENCE_REGEXP (recurrence taskData) = None"
  shows "update stringToDate t taskData h = Inl TypeError"
  using assms new_TaskRecurrence_no_match [OF assms(2)]
  by (simp add: update_def Let_def)

text \<open>
  Claim C4, as amended. \<open>create\<close> and \<open>update\<close> complete without a fault for every
  \<open>TaskData\<close> whose recurrence string is empty or matches \<open>^([1-7])(d|w|m)$\<close>, whatever the
  other strings are; on a non-empty recurrence string that does not match, both throw a
  \<open>TypeError\<close>.
\<close>

theorem create_update_fault_free:
  "(recurrence taskData = [] \<or> match_RECURRENCE_REGEXP (recurrence taskData) \<noteq> None \<longrightarrow>
      (\<exists>t' h'. create stringToDate now taskData h = Inr (t', h'))
      \<and> (\<exists>h'. update stringToDate t taskData h = Inr h'))
   \<and> (recurrence taskData \<noteq> [] \<and> match_RECURRENCE_REGEXP (recurrence taskData) = None \<longrightarrow>
      create stringToDate now taskData h = Inl TypeError
      \<and> update stringToDate t taskData h = Inl TypeError)"
  using create_ok update_ok create_fault update_fault by blast

text \<open>
  Claim C4, as stated, fails: on the recurrence string \<open>8x\<close> both \<open>create\<close> and \<open>update\<close>
  throw a \<open>TypeError\<close>.
\<close>

theorem create_update_fault_counterexample:
  "create stringToDate_iso (Date 2024 3 1 0)
     \<lparr>data_text = ''Buy milk'', project = [], data_priority = Some [], dueDate = [],
      recurrence = ''8x''\<rparr> empty_store = Inl TypeError
   \<and> update stringToDate_iso (new_Task 0)
     \<lparr>data_text = ''Buy milk'', project = [], data_priority = Some [], dueDate = [],
      recurrence = ''8x''\<rparr> (store_of blank_item) = Inl TypeError"
proof -
  have t: "new_TodoTxtItem ''Buy milk'' = Inr (blank_item\<lparr>text' := ''Buy milk''\<rparr>)"
    by code_simp
  show ?thesis
    by (simp add: create_def update_def t Let_def new_TaskRecurrence_def is_unit_char_def)
qed


text \<open>The recurrence string \<open>1m\<close> matches, and both operations complete.\<close>

theorem create_update_fault_free_witness:
  "(recurrence \<lparr>data_text = ''Buy milk'', project = [], data_priority = Some [], dueDate = [],
        recurrence = ''1m''\<rparr> = []
     \<or> match_RECURRENCE_REGEXP (recurrence \<lparr>data_text = ''Buy milk'', project = [],
        data_priority = Some [], dueDate = [], recurrence = ''1m''\<rparr>) \<noteq> None)
   \<and> (\<exists>t' h'. create stringToDate_iso (Date 2024 3 1 0)
        \<lparr>data_text = ''Buy milk'', project = [], data_priority = Some [], dueDate = [],
         recurrence = ''1m''\<rparr> empty_store = Inr (t', h'))
   \<and> (\<exists>h'. update stringToDate_iso (new_Task 0)
        \<lparr>data_text = ''Buy milk'', project = [], data_priority = Some [], dueDate = [],
         recurrence = ''1m''\<rparr> (store_of blank_item) = Inr h')"
proof -
  let ?d = "\<lparr>data_text = ''Buy milk'', project = [], data_priority = Some [], dueDate = [],
         recurrence = ''1m''\<rparr>"
  have m: "recurrence ?d = [] \<or> match_RECURRENCE_REGEXP (recurrence ?d) \<noteq> None"
    by (simp add: is_amount_char_def is_unit_char_def)
  from create_update_fault_free [of ?d stringToDate_iso "Date 2024 3 1 0" empty_store "new_Task 0",
      THEN conjunct1, THEN mp, OF m, THEN conjunct1]
    create_update_fault_free [of ?d stringToDate_iso "Date 2024 3 1 0" "store_of blank_item" "new_Task 0",
      THEN conjunct1, THEN mp, OF m, THEN conjunct2] m
  show ?thesis by (intro conjI)
qed

section \<open>Creating\<close>

lemma read_date_rest: "read_date s = Some (dt, rest) \<Longrightarrow> set rest \<subseteq> set s"
  by (induction s rule: read_date.induct) (auto split: if_splits)

lemma strip_completion_rest: "strip_completion line = (cpl, cdate, l) \<Longrightarrow> set l \<subseteq> set line"
  by (auto simp: strip_completion_def split: list.splits if_splits option.splits prod.splits
      dest!: read_date_rest)

lemma strip_priority_rest: "strip_priority line = (prio, l) \<Longrightarrow> set l \<subseteq> set line"
  by (auto simp: strip_priority_def split: list.splits if_splits)

lemma due_here_colon: "due_here s = Some x \<Longrightarrow> CHR '':'' \<in> set s"
  by (induction s rule: due_here.induct) (auto split: if_splits)

lemma due_search_colon: "due_search b s = Some x \<Longrightarrow> CHR '':'' \<in> set s"
proof (induction s arbitrary: b x)
  case Nil
  then show ?case by simp
next
  case (Cons c cs)
  show ?case
  proof (cases "if b then due_here (c # cs) else None")
    case None
    with Cons.prems obtain y where "due_search (is_space c) cs = Some y"
      by (auto split: option.splits)
    from Cons.IH [OF this] show ?thesis by simp
  next
    case (Some y)
    then have "due_here (c # cs) = Some y"
      by (simp split: if_splits)
    then show ?thesis by (rule due_here_colon)
  qed
qed

lemma tag_here_colon: "tag_here s = Some x \<Longrightarrow> CHR '':'' \<in> set s"
  by (induction s rule: tag_here.induct) (auto split: if_splits)

lemma exec_colon: "exec_RECURRENCE_TAG_REGEXP s = Some x \<Longrightarrow> CHR '':'' \<in> set s"
proof (induction s arbitrary: x)
  case Nil
  then show ?case by simp
next
  case (Cons c cs)
  show ?case
  proof (cases "tag_here (c # cs)")
    case None
    with Cons.prems obtain y where "exec_RECURRENCE_TAG_REGEXP cs = Some y"
      by (auto split: option.splits)
    from Cons.IH [OF this] show ?thesis by simp
  next
    case (Some y)
    then show ?thesis by (rule tag_here_colon)
  qed
qed

lemma new_TodoTxtItem_no_colon:
  assumes "CHR '':'' \<notin> set line" "new_TodoTxtItem line = Inr it"
  shows "due it = None \<and> dueString it = None \<and> rec it = None \<and> recString it = None"
proof -
  obtain cpl cdate l1 where a: "strip_completion line = (cpl, cdate, l1)"
    by (cases "strip_completion line")
  obtain prio l2 where b: "strip_priority l1 = (prio, l2)"
    by (cases "strip_priority l1")
  from strip_completion_rest [OF a] strip_priority_rest [OF b] assms(1)
  have n: "CHR '':'' \<notin> set l2" by blast
  then have d: "due_search True l2 = None"
    using due_search_colon [of True l2] by (cases "due_search True l2") auto
  then have c: "due_parsingFunction l2 = (None, None, None)"
    by (simp add: due_parsingFunction_def)
  from n have e: "exec_RECURRENCE_TAG_REGEXP l2 = None"
    using exec_colon [of l2] by (cases "exec_RECURRENCE_TAG_REGEXP l2") auto
  then have p: "parsingFunction l2 = Inr (None, None, None)"
    by (simp add: parsingFunction_def)
  from assms(2) show ?thesis
    by (auto simp: new_TodoTxtItem_def a b c p Let_def)
qed


text \<open>
  Claim C5, as amended. For every \<open>TaskData\<close> whose recurrence string is empty or matches
  the recurrence pattern, \<open>create\<close> gives a new task at a fresh reference. Its item is the
  one the line parser reads from the text, with the creation date set to the current date
  and with project, priority, due date and recurrence overwritten from exactly the
  non-empty strings of the record. A field whose string is empty keeps what the parser
  read from the text: it is absent when the text holds no such tag, and for the due date
  and the recurrence in particular when the text holds no colon.
\<close>

theorem create_maps_fields:
  "recurrence taskData = [] \<or> match_RECURRENCE_REGEXP (recurrence taskData) \<noteq> None \<longrightarrow>
     (\<exists>it0 it.
        new_TodoTxtItem (data_text taskData) = Inr it0
        \<and> create stringToDate now taskData h = Inr (new_Task (next_ref h), snd (alloc it h))
        \<and> it = it0
            \<lparr>date := Some now,
             projects := (if project taskData \<noteq> [] then Some [project taskData] else projects it0),
             priority := (if truthy (data_priority taskData) then data_priority taskData
                          else priority it0),
             due := (if dueDate taskData \<noteq> [] then Some (stringToDate (dueDate taskData))
                     else due it0),
             dueString := (if dueDate taskData \<noteq> [] then Some (dueDate taskData)
                           else dueString it0),
             rec := (if recurrence taskData \<noteq> []
                     then Some \<lparr>amount = digit_val (hd (recurrence taskData)),
                                 key = tl (recurrence taskData)\<rparr>
                     else rec it0),
             recString := (if recurrence taskData \<noteq> [] then Some (recurrence taskData)
                           else recString it0)\<rparr>
        \<and> (CHR '':'' \<notin> set (data_text taskData) \<longrightarrow>
             due it0 = None \<and> dueString it0 = None \<and> rec it0 = None \<and> recString it0 = None))"
proof
  assume m: "recurrence taskData = [] \<or> match_RECURRENCE_REGEXP (recurrence taskData) \<noteq> None"
  obtain it0 where it0: "new_TodoTxtItem (data_text taskData) = Inr it0"
    using new_TodoTxtItem_no_fault by blast
  let ?it = "it0
            \<lparr>date := Some now,
             projects := (if project taskData \<noteq> [] then Some [project taskData] else projects it0),
             priority := (if truthy (data_priority taskData) then data_priority taskData
                          else priority it0),
             due := (if dueDate taskData \<noteq> [] then Some (stringToDate (dueDate taskData))
                     else due it0),
             dueString := (if dueDate taskData \<noteq> [] then Some (dueDate taskData)
                           else dueString it0),
             rec := (if recurrence taskData \<noteq> []
                     then Some \<lparr>amount = digit_val (hd (recurrence taskData)),
                                 key = tl (recurrence taskData)\<rparr>
                     else rec it0),
             recString := (if recurrence taskData \<noteq> [] then Some (recurrence taskData)
                           else recString it0)\<rparr>"
  have r: "recurrence taskData \<noteq> [] \<Longrightarrow>
      new_TaskRecurrence (recurrence taskData) =
        Inr \<lparr>amount = digit_val (hd (recurrence taskData)), key = tl (recurrence taskData)\<rparr>"
    using m new_TaskRecurrence_match by blast
  have c: "create stringToDate now taskData h = Inr (new_Task (next_ref h), snd (alloc ?it h))"
    by (simp add: create_def it0 Let_def alloc_def r)
  have n: "CHR '':'' \<notin> set (data_text taskData) \<longrightarrow>
      due it0 = None \<and> dueString it0 = None \<and> rec it0 = None \<and> recString it0 = None"
    using new_TodoTxtItem_no_colon [OF _ it0] by blast
  from it0 c n show "\<exists>it0 it.
        new_TodoTxtItem (data_text taskData) = Inr it0
        \<and> create stringToDate now taskData h = Inr (new_Task (next_ref h), snd (alloc it h))
        \<and> it = it0
            \<lparr>date := Some now,
             projects := (if project taskData \<noteq> [] then Some [project taskData] else projects it0),
             priority := (if truthy (data_priority taskData) then data_priority taskData
                          else priority it0),
             due := (if dueDate taskData \<noteq> [] then Some (stringToDate (dueDate taskData))
                     else due it0),
             dueString := (if dueDate taskData \<noteq> [] then Some (dueDate taskData)
                           else dueString it0),
             rec := (if recurrence taskData \<noteq> []
                     then Some \<lparr>amount = digit_val (hd (recurrence taskData)),
                                 key = tl (recurrence taskData)\<rparr>
                     else rec it0),
             recString := (if recurrence taskData \<noteq> [] then Some (recurrence taskData)
                           else recString it0)\<rparr>
        \<and> (CHR '':'' \<notin> set (data_text taskData) \<longrightarrow>
             due it0 = None \<and> dueString it0 = None \<and> rec it0 = None \<and> recString it0 = None)"
    by blast
qed

text \<open>
  Claim C5, as stated, fails: with empty due date and recurrence strings, a text that
  holds a due tag and a recurrence tag gives a task with a due date and a recurrence.
\<close>

theorem create_maps_fields_counterexample:
  "(case create stringToDate_iso (Date 2024 3 1 0)
      \<lparr>data_text = ''Pay rent due:2024-01-31 rec:1m'', project = [], data_priority = Some [],
       dueDate = [], recurrence = []\<rparr> empty_store of
      Inl e \<Rightarrow> None
    | Inr (t, h') \<Rightarrow> Some (due (items h' (todoItem t)), rec (items h' (todoItem t))))
   = Some (Some (Date 2024 1 31 0), Some \<lparr>amount = 1, key = ''m''\<rparr>)"
proof -
  have t: "new_TodoTxtItem ''Pay rent due:2024-01-31 rec:1m'' =
      Inr (blank_item\<lparr>text' := ''Pay rent'', due := Some (Date 2024 1 31 0),
        dueString := Some ''2024-01-31'', rec := Some \<lparr>amount = 1, key = ''m''\<rparr>,
        recString := Some ''1m''\<rparr>)"
    by code_simp
  show ?thesis
    by (simp add: create_def t Let_def truthy_def alloc_def new_Task_def empty_store_def)
qed

text \<open>
  A record with a project and a priority, no due date, no recurrence and a text without
  colon: the task has the creation date, the project and the priority, and neither due date
  nor recurrence.
\<close>

theorem create_maps_fields_witness:
  "(recurrence \<lparr>data_text = ''Buy milk'', project = ''home'', data_priority = Some ''A'',
        dueDate = [], recurrence = []\<rparr> = []
      \<or> match_RECURRENCE_REGEXP (recurrence \<lparr>data_text = ''Buy milk'', project = ''home'',
        data_priority = Some ''A'', dueDate = [], recurrence = []\<rparr>) \<noteq> None)
   \<and> CHR '':'' \<notin> set (data_text \<lparr>data_text = ''Buy milk'', project = ''home'',
        data_priority = Some ''A'', dueDate = [], recurrence = []\<rparr>)
   \<and> (\<exists>it. create stringToDate_iso (Date 2024 3 1 0)
          \<lparr>data_text = ''Buy milk'', project = ''home'', data_priority = Some ''A'',
           dueDate = [], recurrence = []\<rparr> empty_store
          = Inr (new_Task (next_ref empty_store), snd (alloc it empty_store))
        \<and> date it = Some (Date 2024 3 1 0) \<and> projects it = Some [''home'']
        \<and> priority it = Some ''A'' \<and> due it = None \<and> dueString it = None
        \<and> rec it = None \<and> recString it = None)"
proof -
  let ?d = "\<lparr>data_text = ''Buy milk'', project = ''home'', data_priority = Some ''A'',
           dueDate = [], recurrence = []\<rparr>"
  have m: "recurrence ?d = [] \<or> match_RECURRENCE_REGEXP (recurrence ?d) \<noteq> None"
    by simp
  have n: "CHR '':'' \<notin> set (data_text ?d)"
    by simp
  from create_maps_fields [of ?d stringToDate_iso "Date 2024 3 1 0" empty_store, THEN mp, OF m]
  obtain it0 it where
    c: "create stringToDate_iso (Date 2024 3 1 0) ?d empty_store
          = Inr (new_Task (next_ref empty_store), snd (alloc it empty_store))"
    and i: "it = it0
            \<lparr>date := Some (Date 2024 3 1 0),
             projects := (if project ?d \<noteq> [] then Some [project ?d] else projects it0),
             priority := (if truthy (data_priority ?d) then data_priority ?d else priority it0),
             due := (if dueDate ?d \<noteq> [] then Some (stringToDate_iso (dueDate ?d)) else due it0),
             dueString := (if dueDate ?d \<noteq> [] then Some (dueDate ?d) else dueString it0),
             rec := (if recurrence ?d \<noteq> []
                     then Some \<lparr>amount = digit_val (hd (recurrence ?d)), key = tl (recurrence ?d)\<rparr>
                     else rec it0),
             recString := (if recurrence ?d \<noteq> [] then Some (recurrence ?d) else recString it0)\<rparr>"
    and z: "CHR '':'' \<notin> set (data_text ?d) \<longrightarrow>
             due it0 = None \<and> dueString it0 = None \<and> rec it0 = None \<and> recString it0 = None"
    by blast
  from z n have z': "due it0 = None \<and> dueString it0 = None \<and> rec it0 = None \<and> recString it0 = None"
    by (rule mp)
  have f: "date it = Some (Date 2024 3 1 0) \<and> projects it = Some [''home'']
        \<and> priority it = Some ''A'' \<and> due it = None \<and> dueString it = None
        \<and> rec it = None \<and> recString it = None"
    unfolding i using z' by (simp add: truthy_def)
  from c f have "\<exists>it. create stringToDate_iso (Date 2024 3 1 0) ?d empty_store
          = Inr (new_Task (next_ref empty_store), snd (alloc it empty_store))
        \<and> date it = Some (Date 2024 3 1 0) \<and> projects it = Some [''home'']
        \<and> priority it = Some ''A'' \<and> due it = None \<and> dueString it = None
        \<and> rec it = None \<and> recString it = None"
    by blast
  with m n show ?thesis by (intro conjI)
qed

section \<open>The transfer record of a task\<close>

text \<open>
  Claim C3. After an update with every optional string empty, \<open>toTaskData\<close> renders the
  unset project, due date and recurrence as empty strings, and the unset priority as
  \<open>null\<close>, not as the empty string.
\<close>

theorem toTaskData_priority_null:
  "(case update stringToDate_iso (new_Task 0)
      \<lparr>data_text = ''Buy milk'', project = [], data_priority = Some [], dueDate = [],
       recurrence = []\<rparr> (store_of blank_item) of
      Inl e \<Rightarrow> None
    | Inr h' \<Rightarrow> Some (toTaskData (new_Task 0) h'))
   = Some \<lparr>data_text = ''Buy milk'', project = [], data_priority = None, dueDate = [],
       recurrence = []\<rparr>"
  by (simp add: update_def toTaskData_def Let_def truthy_def put_def new_Task_def store_of_def
      blank_item_def)


section \<open>Applying an extractor again\<close>

subsection \<open>The recurrence extractor\<close>

lemma not_space_chars:
  "\<not> is_space CHR ''r''" "\<not> is_space CHR ''e''" "\<not> is_space CHR ''c''" "\<not> is_space CHR '':''"
  "\<not> is_space CHR ''d''" "\<not> is_space CHR ''u''" "\<not> is_space CHR ''-''"
  by (simp_all add: is_space_def)

lemma amount_not_space: "is_amount_char a \<Longrightarrow> \<not> is_space a"
  by (auto simp: is_amount_char_def is_space_def)

lemma unit_not_space: "is_unit_char u \<Longrightarrow> \<not> is_space u"
  by (auto simp: is_unit_char_def is_space_def)

lemma digit_not_space: "is_digit a \<Longrightarrow> \<not> is_space a"
  by (auto simp: is_digit_def is_space_def)


lemma tag_here_shape_D:
  "tag_here s = Some v \<Longrightarrow>
     \<exists>a u t. s = CHR ''r'' # CHR ''e'' # CHR ''c'' # CHR '':'' # a # u # t
        \<and> is_amount_char a \<and> is_unit_char u \<and> (t = [] \<or> is_space (hd t))"
  by (erule tag_here.elims) (auto split: if_splits list.splits)

lemma tag_here_shape_I:
  "is_amount_char a \<Longrightarrow> is_unit_char u \<Longrightarrow> t = [] \<or> is_space (hd t) \<Longrightarrow>
     tag_here (CHR ''r'' # CHR ''e'' # CHR ''c'' # CHR '':'' # a # u # t) \<noteq> None"
  by (cases t) auto


lemma peel:
  "p \<noteq> [] \<Longrightarrow> is_space (last p) \<Longrightarrow> p @ y = c # cs \<Longrightarrow> \<not> is_space c \<Longrightarrow>
     \<exists>p'. p = c # p' \<and> p' \<noteq> [] \<and> is_space (last p') \<and> p' @ y = cs"
  by (cases p) (auto split: if_splits)

lemma tag_here_prefix:
  assumes "p \<noteq> []" "is_space (last p)" "tag_here (p @ y) \<noteq> None"
  shows "tag_here (p @ x) \<noteq> None"
proof -
  from assms(3) obtain v where "tag_here (p @ y) = Some v" by blast
  from tag_here_shape_D [OF this] obtain a u t where
    s: "p @ y = CHR ''r'' # CHR ''e'' # CHR ''c'' # CHR '':'' # a # u # t"
    and c: "is_amount_char a" "is_unit_char u" "t = [] \<or> is_space (hd t)"
    by blast
  from peel [OF assms(1,2) s not_space_chars(1)] obtain p1 where
    1: "p = CHR ''r'' # p1" "p1 \<noteq> []" "is_space (last p1)"
      "p1 @ y = CHR ''e'' # CHR ''c'' # CHR '':'' # a # u # t" by blast
  from peel [OF 1(2,3,4) not_space_chars(2)] obtain p2 where
    2: "p1 = CHR ''e'' # p2" "p2 \<noteq> []" "is_space (last p2)"
      "p2 @ y = CHR ''c'' # CHR '':'' # a # u # t" by blast
  from peel [OF 2(2,3,4) not_space_chars(3)] obtain p3 where
    3: "p2 = CHR ''c'' # p3" "p3 \<noteq> []" "is_space (last p3)"
      "p3 @ y = CHR '':'' # a # u # t" by blast
  from peel [OF 3(2,3,4) not_space_chars(4)] obtain p4 where
    4: "p3 = CHR '':'' # p4" "p4 \<noteq> []" "is_space (last p4)" "p4 @ y = a # u # t" by blast
  from peel [OF 4(2,3,4) amount_not_space [OF c(1)]] obtain p5 where
    5: "p4 = a # p5" "p5 \<noteq> []" "is_space (last p5)" "p5 @ y = u # t" by blast
  from peel [OF 5(2,3,4) unit_not_space [OF c(2)]] obtain p6 where
    6: "p5 = u # p6" "p6 \<noteq> []" "is_space (last p6)" "p6 @ y = t" by blast
  from 6(2,4) c(3) have h: "is_space (hd p6)" by (cases p6) auto
  have p: "p @ x = CHR ''r'' # CHR ''e'' # CHR ''c'' # CHR '':'' # a # u # (p6 @ x)"
    by (simp add: 1 2 3 4 5 6)
  from h 6(2) have "p6 @ x = [] \<or> is_space (hd (p6 @ x))" by simp
  from tag_here_shape_I [OF c(1,2) this] show ?thesis
    unfolding p .
qed


lemma exec_None_count: "exec_RECURRENCE_TAG_REGEXP s = None \<longleftrightarrow> count_tags s = 0"
  by (induction s) (auto split: option.splits)

lemma count_tags_drop: "count_tags (drop k s) \<le> count_tags s"
proof (induction s arbitrary: k)
  case Nil
  then show ?case by simp
next
  case (Cons c cs)
  show ?case
  proof (cases k)
    case 0
    then show ?thesis by simp
  next
    case (Suc j)
    with Cons [of j] show ?thesis by simp
  qed
qed

lemma exec_Some_split:
  "exec_RECURRENCE_TAG_REGEXP s = Some (pre, g, rest) \<Longrightarrow>
     \<exists>mid. s = pre @ mid \<and> tag_here mid = Some (g, rest)
       \<and> (\<forall>q p. pre = q @ p \<longrightarrow> p \<noteq> [] \<longrightarrow> tag_here (p @ mid) = None)
       \<and> count_tags s = count_tags mid"
proof (induction s arbitrary: pre)
  case Nil
  then show ?case by simp
next
  case (Cons c cs)
  show ?case
  proof (cases "tag_here (c # cs)")
    case (Some v)
    with Cons.prems have "pre = []" "tag_here (c # cs) = Some (g, rest)"
      by (auto split: prod.splits)
    then show ?thesis by auto
  next
    case None
    with Cons.prems obtain pre' where e: "exec_RECURRENCE_TAG_REGEXP cs = Some (pre', g, rest)"
      and p: "pre = c # pre'"
      by (auto split: option.splits)
    from Cons.IH [OF e] obtain mid where m: "cs = pre' @ mid" "tag_here mid = Some (g, rest)"
      "\<forall>q p. pre' = q @ p \<longrightarrow> p \<noteq> [] \<longrightarrow> tag_here (p @ mid) = None"
      "count_tags cs = count_tags mid"
      by blast
    have "\<forall>q p. pre = q @ p \<longrightarrow> p \<noteq> [] \<longrightarrow> tag_here (p @ mid) = None"
    proof (intro allI impI)
      fix q p
      assume qp: "pre = q @ p" "p \<noteq> []"
      show "tag_here (p @ mid) = None"
      proof (cases q)
        case Nil
        with qp(1) p have "p = c # pre'" by simp
        with m(1) None show ?thesis by simp
      next
        case (Cons c' q')
        with qp p have "pre' = q' @ p" by simp
        with m(3) qp(2) show ?thesis by blast
      qed
    qed
    with m p None show ?thesis by auto
  qed
qed

lemma tag_here_rest:
  "tag_here mid = Some (g, rest) \<Longrightarrow> \<exists>k. rest = drop k (tl mid) \<and> mid \<noteq> []"
proof (erule tag_here.elims, goal_cases)
  case (1 r e c k a u rest')
  then show ?case
  proof (cases rest')
    case Nil
    with 1 have "rest = drop 5 (tl mid)" by (auto split: if_splits)
    with 1 show ?thesis by blast
  next
    case (Cons s rest'')
    with 1 have "rest = drop 6 (tl mid)" by (auto split: if_splits)
    with 1 show ?thesis by blast
  qed
qed simp_all

lemma count_tags_residual:
  assumes "\<forall>q p. pre = q @ p \<longrightarrow> p \<noteq> [] \<longrightarrow> tag_here (p @ mid) = None"
    and "pre = [] \<or> is_space (last pre)"
    and "count_tags rest = 0"
  shows "count_tags (pre @ rest) = 0"
  using assms
proof (induction pre)
  case Nil
  then show ?case by simp
next
  case (Cons c pre)
  from Cons.prems(1) have n: "tag_here ((c # pre) @ mid) = None"
    by (metis append_Nil list.distinct(1))
  from Cons.prems(2) have sp: "is_space (last (c # pre))" by simp
  have t: "tag_here ((c # pre) @ rest) = None"
  proof (rule ccontr)
    assume "tag_here ((c # pre) @ rest) \<noteq> None"
    from tag_here_prefix [OF _ sp this, of mid] n show False by simp
  qed
  have a: "\<forall>q p. pre = q @ p \<longrightarrow> p \<noteq> [] \<longrightarrow> tag_here (p @ mid) = None"
  proof (intro allI impI)
    fix q p
    assume "pre = q @ p" "p \<noteq> []"
    then have "c # pre = (c # q) @ p" by simp
    with Cons.prems(1) \<open>p \<noteq> []\<close> show "tag_here (p @ mid) = None" by blast
  qed
  from Cons.prems(2) have b: "pre = [] \<or> is_space (last pre)"
    by (cases pre) auto
  from Cons.IH [OF a b Cons.prems(3)] t show ?case by simp
qed

lemma parsingFunction_idem:
  assumes c: "count_tags line \<le> 1" and ts: "tag_starts_token line"
    and p: "parsingFunction line = Inr (r, Some residual, raw)"
  shows "parsingFunction residual = Inr (None, None, None)"
proof -
  from p obtain pre g rest where e: "exec_RECURRENCE_TAG_REGEXP line = Some (pre, g, rest)"
    and r: "residual = pre @ rest"
    by (auto simp: parsingFunction_def split: option.splits sum.splits)
  from exec_Some_split [OF e] obtain mid where m: "line = pre @ mid" "tag_here mid = Some (g, rest)"
    "\<forall>q p. pre = q @ p \<longrightarrow> p \<noteq> [] \<longrightarrow> tag_here (p @ mid) = None"
    "count_tags line = count_tags mid"
    by blast
  from tag_here_rest [OF m(2)] obtain k where k: "rest = drop k (tl mid)" "mid \<noteq> []"
    by blast
  from k(2) m(2) have "count_tags mid = 1 + count_tags (tl mid)"
    by (cases mid) auto
  with c m(4) have "count_tags (tl mid) = 0" by simp
  with count_tags_drop [of k "tl mid"] k(1) have z: "count_tags rest = 0" by simp
  from ts e have b: "pre = [] \<or> is_space (last pre)"
    by (simp add: tag_starts_token_def)
  from count_tags_residual [OF m(3) b z] r have "exec_RECURRENCE_TAG_REGEXP residual = None"
    by (simp add: exec_None_count)
  then show ?thesis by (simp add: parsingFunction_def)
qed

subsection \<open>The due-date extractor\<close>

lemma read_date_shape_D:
  "read_date s = Some (dt, t) \<Longrightarrow>
     \<exists>y1 y2 y3 y4 m1 m2 d1 d2.
        s = y1 # y2 # y3 # y4 # CHR ''-'' # m1 # m2 # CHR ''-'' # d1 # d2 # t
        \<and> is_digit y1 \<and> is_digit y2 \<and> is_digit y3 \<and> is_digit y4
        \<and> is_digit m1 \<and> is_digit m2 \<and> is_digit d1 \<and> is_digit d2
        \<and> read_date [y1, y2, y3, y4, CHR ''-'', m1, m2, CHR ''-'', d1, d2] = Some (dt, [])"
  by (erule read_date.elims) (auto split: if_splits)

lemma read_date_shape_I:
  "read_date [y1, y2, y3, y4, h1, m1, m2, h2, d1, d2] = Some (dt, []) \<Longrightarrow>
     read_date (y1 # y2 # y3 # y4 # h1 # m1 # m2 # h2 # d1 # d2 # t) = Some (dt, t)"
  by (auto split: if_splits)

lemma due_here_shape_D:
  "due_here s = Some v \<Longrightarrow>
     \<exists>rest dt t. s = CHR ''d'' # CHR ''u'' # CHR ''e'' # CHR '':'' # rest
        \<and> read_date rest = Some (dt, t) \<and> (t = [] \<or> is_space (hd t))"
  by (erule due_here.elims) (auto split: if_splits option.splits list.splits)

lemma due_here_shape_I:
  "read_date rest = Some (dt, t) \<Longrightarrow> t = [] \<or> is_space (hd t) \<Longrightarrow>
     due_here (CHR ''d'' # CHR ''u'' # CHR ''e'' # CHR '':'' # rest) \<noteq> None"
  by (cases t) auto


lemma due_here_prefix:
  assumes "p \<noteq> []" "is_space (last p)" "due_here (p @ y) \<noteq> None"
  shows "due_here (p @ x) \<noteq> None"
proof -
  from assms(3) obtain v where "due_here (p @ y) = Some v" by blast
  from due_here_shape_D [OF this] obtain rest dt t where
    s0: "p @ y = CHR ''d'' # CHR ''u'' # CHR ''e'' # CHR '':'' # rest"
    and rd: "read_date rest = Some (dt, t)" and c: "t = [] \<or> is_space (hd t)"
    by blast
  from read_date_shape_D [OF rd] obtain y1 y2 y3 y4 m1 m2 d1 d2 where
    r: "rest = y1 # y2 # y3 # y4 # CHR ''-'' # m1 # m2 # CHR ''-'' # d1 # d2 # t"
    and dg: "is_digit y1" "is_digit y2" "is_digit y3" "is_digit y4"
      "is_digit m1" "is_digit m2" "is_digit d1" "is_digit d2"
    and rd0: "read_date [y1, y2, y3, y4, CHR ''-'', m1, m2, CHR ''-'', d1, d2] = Some (dt, [])"
    by blast
  note s = s0 [unfolded r]
  from peel [OF assms(1,2) s not_space_chars(5)] obtain p1 where
    1: "p = CHR ''d'' # p1" "p1 \<noteq> []" "is_space (last p1)"
      "p1 @ y = CHR ''u'' # CHR ''e'' # CHR '':'' # y1 # y2 # y3 # y4 # CHR ''-'' # m1 # m2 # CHR ''-'' # d1 # d2 # t"
    by blast
  from peel [OF 1(2,3,4) not_space_chars(6)] obtain p2 where
    2: "p1 = CHR ''u'' # p2" "p2 \<noteq> []" "is_space (last p2)"
      "p2 @ y = CHR ''e'' # CHR '':'' # y1 # y2 # y3 # y4 # CHR ''-'' # m1 # m2 # CHR ''-'' # d1 # d2 # t"
    by blast
  from peel [OF 2(2,3,4) not_space_chars(2)] obtain p3 where
    3: "p2 = CHR ''e'' # p3" "p3 \<noteq> []" "is_space (last p3)"
      "p3 @ y = CHR '':'' # y1 # y2 # y3 # y4 # CHR ''-'' # m1 # m2 # CHR ''-'' # d1 # d2 # t"
    by blast
  from peel [OF 3(2,3,4) not_space_chars(4)] obtain p4 where
    4: "p3 = CHR '':'' # p4" "p4 \<noteq> []" "is_space (last p4)"
      "p4 @ y = y1 # y2 # y3 # y4 # CHR ''-'' # m1 # m2 # CHR ''-'' # d1 # d2 # t"
    by blast
  from peel [OF 4(2,3,4) digit_not_space [OF dg(1)]] obtain p5 where
    5: "p4 = y1 # p5" "p5 \<noteq> []" "is_space (last p5)"
      "p5 @ y = y2 # y3 # y4 # CHR ''-'' # m1 # m2 # CHR ''-'' # d1 # d2 # t"
    by blast
  from peel [OF 5(2,3,4) digit_not_space [OF dg(2)]] obtain p6 where
    6: "p5 = y2 # p6" "p6 \<noteq> []" "is_space (last p6)"
      "p6 @ y = y3 # y4 # CHR ''-'' # m1 # m2 # CHR ''-'' # d1 # d2 # t"
    by blast
  from peel [OF 6(2,3,4) digit_not_space [OF dg(3)]] obtain p7 where
    7: "p6 = y3 # p7" "p7 \<noteq> []" "is_space (last p7)"
      "p7 @ y = y4 # CHR ''-'' # m1 # m2 # CHR ''-'' # d1 # d2 # t"
    by blast
  from peel [OF 7(2,3,4) digit_not_space [OF dg(4)]] obtain p8 where
    8: "p7 = y4 # p8" "p8 \<noteq> []" "is_space (last p8)"
      "p8 @ y = CHR ''-'' # m1 # m2 # CHR ''-'' # d1 # d2 # t"
    by blast
  from peel [OF 8(2,3,4) not_space_chars(7)] obtain p9 where
    9: "p8 = CHR ''-'' # p9" "p9 \<noteq> []" "is_space (last p9)"
      "p9 @ y = m1 # m2 # CHR ''-'' # d1 # d2 # t"
    by blast
  from peel [OF 9(2,3,4) digit_not_space [OF dg(5)]] obtain p10 where
    10: "p9 = m1 # p10" "p10 \<noteq> []" "is_space (last p10)"
      "p10 @ y = m2 # CHR ''-'' # d1 # d2 # t"
    by blast
  from peel [OF 10(2,3,4) digit_not_space [OF dg(6)]] obtain p11 where
    11: "p10 = m2 # p11" "p11 \<noteq> []" "is_space (last p11)"
      "p11 @ y = CHR ''-'' # d1 # d2 # t"
    by blast
  from peel [OF 11(2,3,4) not_space_chars(7)] obtain p12 where
    12: "p11 = CHR ''-'' # p12" "p12 \<noteq> []" "is_space (last p12)"
      "p12 @ y = d1 # d2 # t"
    by blast
  from peel [OF 12(2,3,4) digit_not_space [OF dg(7)]] obtain p13 where
    13: "p12 = d1 # p13" "p13 \<noteq> []" "is_space (last p13)" "p13 @ y = d2 # t"
    by blast
  from peel [OF 13(2,3,4) digit_not_space [OF dg(8)]] obtain p14 where
    14: "p13 = d2 # p14" "p14 \<noteq> []" "is_space (last p14)" "p14 @ y = t"
    by blast
  from 14(2,4) c have h: "is_space (hd p14)" by (cases p14) auto
  have p: "p @ x = CHR ''d'' # CHR ''u'' # CHR ''e'' # CHR '':'' #
      (y1 # y2 # y3 # y4 # CHR ''-'' # m1 # m2 # CHR ''-'' # d1 # d2 # (p14 @ x))"
    by (simp add: 1 2 3 4 5 6 7 8 9 10 11 12 13 14)
  from h 14(2) have e: "p14 @ x = [] \<or> is_space (hd (p14 @ x))" by simp
  from due_here_shape_I [OF read_date_shape_I [OF rd0] e] show ?thesis
    unfolding p .
qed

lemma due_here_extend:
  assumes "due_here p \<noteq> None" "is_space c"
  shows "due_here (p @ c # z) \<noteq> None"
proof -
  from assms(1) obtain v where "due_here p = Some v" by blast
  from due_here_shape_D [OF this] obtain rest dt t where
    s0: "p = CHR ''d'' # CHR ''u'' # CHR ''e'' # CHR '':'' # rest"
    and rd: "read_date rest = Some (dt, t)" and c: "t = [] \<or> is_space (hd t)"
    by blast
  from read_date_shape_D [OF rd] obtain y1 y2 y3 y4 m1 m2 d1 d2 where
    r: "rest = y1 # y2 # y3 # y4 # CHR ''-'' # m1 # m2 # CHR ''-'' # d1 # d2 # t"
    and rd0: "read_date [y1, y2, y3, y4, CHR ''-'', m1, m2, CHR ''-'', d1, d2] = Some (dt, [])"
    by blast
  have p: "p @ c # z = CHR ''d'' # CHR ''u'' # CHR ''e'' # CHR '':'' #
      (y1 # y2 # y3 # y4 # CHR ''-'' # m1 # m2 # CHR ''-'' # d1 # d2 # (t @ c # z))"
    by (simp add: s0 r)
  from c assms(2) have e: "t @ c # z = [] \<or> is_space (hd (t @ c # z))"
    by (cases t) auto
  from due_here_shape_I [OF read_date_shape_I [OF rd0] e] show ?thesis
    unfolding p .
qed

lemma due_here_rest:
  assumes "due_here mid = Some (dt, raw, rest)"
  shows "\<exists>u. mid = CHR ''d'' # u @ rest \<and> (rest = [] \<or> is_space (hd rest))"
proof -
  from due_here_shape_D [OF assms] obtain rest0 dt0 t where
    s0: "mid = CHR ''d'' # CHR ''u'' # CHR ''e'' # CHR '':'' # rest0"
    and rd: "read_date rest0 = Some (dt0, t)" and c: "t = [] \<or> is_space (hd t)"
    by blast
  from read_date_shape_D [OF rd] obtain y1 y2 y3 y4 m1 m2 d1 d2 where
    r: "rest0 = y1 # y2 # y3 # y4 # CHR ''-'' # m1 # m2 # CHR ''-'' # d1 # d2 # t"
    by blast
  from assms rd c have "rest = t"
    unfolding s0 by (cases t) (auto split: if_splits)
  with s0 r c have "mid = CHR ''d'' # (CHR ''u'' # CHR ''e'' # CHR '':'' #
      [y1, y2, y3, y4, CHR ''-'', m1, m2, CHR ''-'', d1, d2]) @ rest \<and> (rest = [] \<or> is_space (hd rest))"
    by simp
  then show ?thesis by blast
qed

lemma count_due_mono: "count_due b s \<le> count_due True s"
  by (cases s) auto

lemma count_due_suffix: "count_due (is_space c) v \<le> count_due b (u @ c # v)"
proof (induction u arbitrary: b)
  case Nil
  then show ?case by simp
next
  case (Cons a u)
  from Cons [of "is_space a"] show ?case by simp
qed

lemma due_search_None_count: "due_search b s = None \<longleftrightarrow> count_due b s = 0"
proof (induction s arbitrary: b)
  case Nil
  then show ?case by simp
next
  case (Cons c cs)
  show ?case
  proof (cases "b \<and> due_here (c # cs) \<noteq> None")
    case True
    then show ?thesis by (auto split: prod.splits)
  next
    case False
    then have "b \<Longrightarrow> due_here (c # cs) = None" by blast
    then have "(if b then due_here (c # cs) else None) = None"
      by (cases b) (simp_all only: if_True if_False)
    then have "due_search b (c # cs) = None \<longleftrightarrow> due_search (is_space c) cs = None"
      by (simp split: option.splits del: due_here.simps)
    with Cons [of "is_space c"] False show ?thesis by auto
  qed
qed

lemma boundary_before_Cons: "boundary_before b (c # q) = boundary_before (is_space c) q"
  by (simp add: boundary_before_def)

lemma due_search_Some_split:
  "due_search b s = Some (pre, dt, raw, rest) \<Longrightarrow>
     \<exists>mid. s = pre @ mid \<and> due_here mid = Some (dt, raw, rest) \<and> boundary_before b pre
       \<and> (\<forall>q p. pre = q @ p \<longrightarrow> p \<noteq> [] \<longrightarrow> boundary_before b q \<longrightarrow> due_here (p @ mid) = None)
       \<and> count_due b s = count_due True mid"
proof (induction s arbitrary: b pre)
  case Nil
  then show ?case by simp
next
  case (Cons c cs)
  show ?case
  proof (cases "b \<and> due_here (c # cs) \<noteq> None")
    case True
    with Cons.prems have "pre = []" "due_here (c # cs) = Some (dt, raw, rest)"
      by (auto split: prod.splits)
    with True show ?thesis by (auto simp: boundary_before_def)
  next
    case False
    with Cons.prems obtain pre' where e: "due_search (is_space c) cs = Some (pre', dt, raw, rest)"
      and p: "pre = c # pre'"
      by (auto split: option.splits if_splits)
    from Cons.IH [OF e] obtain mid where m: "cs = pre' @ mid" "due_here mid = Some (dt, raw, rest)"
      "boundary_before (is_space c) pre'"
      "\<forall>q p. pre' = q @ p \<longrightarrow> p \<noteq> [] \<longrightarrow> boundary_before (is_space c) q \<longrightarrow> due_here (p @ mid) = None"
      "count_due (is_space c) cs = count_due True mid"
      by blast
    have a: "\<forall>q p. pre = q @ p \<longrightarrow> p \<noteq> [] \<longrightarrow> boundary_before b q \<longrightarrow> due_here (p @ mid) = None"
    proof (intro allI impI)
      fix q p
      assume qp: "pre = q @ p" "p \<noteq> []" "boundary_before b q"
      show "due_here (p @ mid) = None"
      proof (cases q)
        case Nil
        with qp(1) p have "p = c # pre'" by simp
        moreover from Nil qp(3) have b by (simp add: boundary_before_def)
        with False have "due_here (c # cs) = None" by blast
        ultimately show ?thesis using m(1) by simp
      next
        case (Cons c' q')
        with qp p have "pre' = q' @ p" "boundary_before (is_space c) q'" by (simp_all add: boundary_before_Cons)
        with m(4) qp(2) show ?thesis by blast
      qed
    qed
    from False have "count_due b (c # cs) = count_due (is_space c) cs" by auto
    with m(5) have k: "count_due b (c # cs) = count_due True mid" by simp
    from m(3) p have "boundary_before b pre" by (simp add: boundary_before_Cons)
    with m(1,2) p a k show ?thesis by auto
  qed
qed

lemma count_due_residual_space:
  assumes "\<forall>q p. pre = q @ p \<longrightarrow> p \<noteq> [] \<longrightarrow> boundary_before b q \<longrightarrow> due_here (p @ mid) = None"
    and "boundary_before b pre"
    and "count_due True rest = 0"
  shows "count_due b (pre @ rest) = 0"
  using assms
proof (induction pre arbitrary: b)
  case Nil
  with count_due_mono [of b rest] show ?case by simp
next
  case (Cons c pre)
  from Cons.prems(2) have sp: "is_space (last (c # pre))" by (simp add: boundary_before_def)
  have t: "\<not> (b \<and> due_here ((c # pre) @ rest) \<noteq> None)"
  proof
    assume h: "b \<and> due_here ((c # pre) @ rest) \<noteq> None"
    then have "boundary_before b []" by (simp add: boundary_before_def)
    with Cons.prems(1) have n: "due_here ((c # pre) @ mid) = None"
      by (metis append_Nil list.distinct(1))
    from h have "due_here ((c # pre) @ rest) \<noteq> None" by simp
    from due_here_prefix [OF _ sp this, of mid] n show False by simp
  qed
  have a: "\<forall>q p. pre = q @ p \<longrightarrow> p \<noteq> [] \<longrightarrow> boundary_before (is_space c) q \<longrightarrow> due_here (p @ mid) = None"
  proof (intro allI impI)
    fix q p
    assume "pre = q @ p" "p \<noteq> []" "boundary_before (is_space c) q"
    then have "c # pre = (c # q) @ p" "boundary_before b (c # q)" by (simp_all add: boundary_before_Cons)
    with Cons.prems(1) \<open>p \<noteq> []\<close> show "due_here (p @ mid) = None" by blast
  qed
  from Cons.prems(2) have b: "boundary_before (is_space c) pre" by (simp add: boundary_before_Cons)
  from Cons.IH [OF a b Cons.prems(3)] t show ?case by auto
qed

lemma count_due_residual_end:
  assumes "\<forall>q p. pb @ [sp] = q @ p \<longrightarrow> p \<noteq> [] \<longrightarrow> boundary_before b q \<longrightarrow> due_here (p @ mid) = None"
    and "is_space sp"
  shows "count_due b pb = 0"
  using assms
proof (induction pb arbitrary: b)
  case Nil
  then show ?case by simp
next
  case (Cons c pb)
  have t: "\<not> (b \<and> due_here (c # pb) \<noteq> None)"
  proof
    assume h: "b \<and> due_here (c # pb) \<noteq> None"
    then have "boundary_before b []" by (simp add: boundary_before_def)
    with Cons.prems(1) have n: "due_here (((c # pb) @ [sp]) @ mid) = None"
      by (metis append_Nil snoc_eq_iff_butlast)
    from h have "due_here (c # pb) \<noteq> None" by simp
    from due_here_extend [OF this Cons.prems(2), of mid] n show False by simp
  qed
  have a: "\<forall>q p. pb @ [sp] = q @ p \<longrightarrow> p \<noteq> [] \<longrightarrow> boundary_before (is_space c) q \<longrightarrow> due_here (p @ mid) = None"
  proof (intro allI impI)
    fix q p
    assume "pb @ [sp] = q @ p" "p \<noteq> []" "boundary_before (is_space c) q"
    then have "(c # pb) @ [sp] = (c # q) @ p" "boundary_before b (c # q)" by (simp_all add: boundary_before_Cons)
    with Cons.prems(1) \<open>p \<noteq> []\<close> show "due_here (p @ mid) = None" by blast
  qed
  from Cons.IH [OF a Cons.prems(2)] t show ?case by auto
qed

lemma due_parsingFunction_idem:
  assumes c: "count_due True line \<le> 1"
    and p: "due_parsingFunction line = (d, Some residual, raw)"
  shows "due_parsingFunction residual = (None, None, None)"
proof -
  from p obtain pre dt rw rest where e: "due_search True line = Some (pre, dt, rw, rest)"
    and r: "residual = (case rest of
                   [] \<Rightarrow> (if pre \<noteq> [] \<and> is_space (last pre) then butlast pre else pre)
                 | s # rest' \<Rightarrow> pre @ rest')"
    by (auto simp: due_parsingFunction_def split: option.splits)
  from due_search_Some_split [OF e] obtain mid where m: "line = pre @ mid"
    "due_here mid = Some (dt, rw, rest)" "boundary_before True pre"
    "\<forall>q p. pre = q @ p \<longrightarrow> p \<noteq> [] \<longrightarrow> boundary_before True q \<longrightarrow> due_here (p @ mid) = None"
    "count_due True line = count_due True mid"
    by blast
  from due_here_rest [OF m(2)] obtain u where u: "mid = CHR ''d'' # u @ rest"
    "rest = [] \<or> is_space (hd rest)"
    by blast
  have z: "count_due True residual = 0"
  proof (cases rest)
    case Nil
    show ?thesis
    proof (cases "pre = []")
      case True
      with Nil r show ?thesis by simp
    next
      case False
      with m(3) have sp: "is_space (last pre)" by (simp add: boundary_before_def)
      from False have pp: "pre = butlast pre @ [last pre]" by simp
      from m(4) have "\<forall>q p. butlast pre @ [last pre] = q @ p \<longrightarrow> p \<noteq> [] \<longrightarrow> boundary_before True q \<longrightarrow> due_here (p @ mid) = None"
        using pp by simp
      from count_due_residual_end [OF this sp] Nil r False sp show ?thesis by simp
    qed
  next
    case (Cons s rest')
    with u(2) have ss: "is_space s" by simp
    from m(2) have "due_here mid \<noteq> None" by simp
    with u(1) have "count_due True mid = 1 + count_due False (u @ rest)"
      by (simp add: not_space_chars del: due_here.simps)
    with c m(5) have "count_due False (u @ s # rest') = 0" using Cons by simp
    with count_due_suffix [of s rest' False u] ss have "count_due True rest' = 0" by simp
    from count_due_residual_space [OF m(4) m(3) this] Cons r show ?thesis by simp
  qed
  then have "due_search True residual = None" by (simp add: due_search_None_count)
  then show ?thesis by (simp add: due_parsingFunction_def)
qed

subsection \<open>Both extractors\<close>

text \<open>
  Claim C6, as amended. Each extractor removes its leftmost tag only. For the recurrence
  extractor: on a line where the tag pattern matches at one position at most, and where
  that match starts the line or follows a white space, applying the extractor again to the
  residual line it returned finds no match, and all three outputs are absent. For the
  due-date extractor, which matches between boundaries only: the same on a line that
  holds at most one due-date tag.
\<close>

theorem extractors_idempotent_single_tag:
  "(count_tags line \<le> 1 \<longrightarrow> tag_starts_token line \<longrightarrow>
      parsingFunction line = Inr (r, Some residual, raw) \<longrightarrow>
      parsingFunction residual = Inr (None, None, None))
   \<and> (count_due True line' \<le> 1 \<longrightarrow>
      due_parsingFunction line' = (d, Some residual', raw') \<longrightarrow>
      due_parsingFunction residual' = (None, None, None))"
proof (intro conjI impI)
  assume "count_tags line \<le> 1" "tag_starts_token line"
    "parsingFunction line = Inr (r, Some residual, raw)"
  then show "parsingFunction residual = Inr (None, None, None)"
    by (rule parsingFunction_idem)
next
  assume "count_due True line' \<le> 1" "due_parsingFunction line' = (d, Some residual', raw')"
  then show "due_parsingFunction residual' = (None, None, None)"
    by (rule due_parsingFunction_idem)
qed

text \<open>
  Claim C6, as stated, fails for both extractors, and for the recurrence extractor
  neither condition of the amended claim can be dropped. On the line \<open>rec:1d rec:2w\<close>
  the residual line is \<open>rec:2w\<close>, on which the extractor matches again. On the line
  \<open>rec:rec:1d 2w\<close> the pattern matches at one position only, inside a word; removing the
  match joins \<open>rec:\<close> and \<open>2w\<close> into the residual line \<open>rec:2w\<close>. On the line
  \<open>due:2024-01-31 due:2024-02-01\<close> the residual line of the due-date extractor is
  \<open>due:2024-02-01\<close>, on which it matches again.
\<close>

theorem extractors_idempotent_counterexample:
  "parsingFunction ''rec:1d rec:2w''
     = Inr (Some \<lparr>amount = 1, key = ''d''\<rparr>, Some ''rec:2w'', Some ''1d'')
   \<and> parsingFunction ''rec:2w'' = Inr (Some \<lparr>amount = 2, key = ''w''\<rparr>, Some [], Some ''2w'')
   \<and> count_tags ''rec:rec:1d 2w'' = 1
   \<and> parsingFunction ''rec:rec:1d 2w''
     = Inr (Some \<lparr>amount = 1, key = ''d''\<rparr>, Some ''rec:2w'', Some ''1d'')
   \<and> due_parsingFunction ''due:2024-01-31 due:2024-02-01''
     = (Some (Date 2024 1 31 0), Some ''due:2024-02-01'', Some ''2024-01-31'')
   \<and> due_parsingFunction ''due:2024-02-01''
     = (Some (Date 2024 2 1 0), Some [], Some ''2024-02-01'')"
  by code_simp

text \<open>
  Lines with other colons, and with a tag of the other kind: one recurrence tag after a
  due-date tag, and one due-date tag after a time of day. The residual lines have no match.
\<close>

theorem extractors_idempotent_single_tag_witness:
  "count_tags ''Pay rent due:2024-01-31 rec:1d'' \<le> 1
   \<and> tag_starts_token ''Pay rent due:2024-01-31 rec:1d''
   \<and> parsingFunction ''Pay rent due:2024-01-31 rec:1d''
       = Inr (Some \<lparr>amount = 1, key = ''d''\<rparr>, Some ''Pay rent due:2024-01-31 '', Some ''1d'')
   \<and> parsingFunction ''Pay rent due:2024-01-31 '' = Inr (None, None, None)
   \<and> count_due True ''Call at 10:30 due:2024-01-31 rec:1w'' \<le> 1
   \<and> due_parsingFunction ''Call at 10:30 due:2024-01-31 rec:1w''
       = (Some (Date 2024 1 31 0), Some ''Call at 10:30 rec:1w'', Some ''2024-01-31'')
   \<and> due_parsingFunction ''Call at 10:30 rec:1w'' = (None, None, None)"
proof -
  have c: "count_tags ''Pay rent due:2024-01-31 rec:1d'' \<le> 1"
    by code_simp
  have s: "tag_starts_token ''Pay rent due:2024-01-31 rec:1d''"
    by code_simp
  have p: "parsingFunction ''Pay rent due:2024-01-31 rec:1d''
       = Inr (Some \<lparr>amount = 1, key = ''d''\<rparr>, Some ''Pay rent due:2024-01-31 '', Some ''1d'')"
    by code_simp
  have c': "count_due True ''Call at 10:30 due:2024-01-31 rec:1w'' \<le> 1"
    by code_simp
  have p': "due_parsingFunction ''Call at 10:30 due:2024-01-31 rec:1w''
       = (Some (Date 2024 1 31 0), Some ''Call at 10:30 rec:1w'', Some ''2024-01-31'')"
    by code_simp
  note t = extractors_idempotent_single_tag
    [of "''Pay rent due:2024-01-31 rec:1d''" "Some \<lparr>amount = 1, key = ''d''\<rparr>"
        "''Pay rent due:2024-01-31 ''" "Some ''1d''"
        "''Call at 10:30 due:2024-01-31 rec:1w''" "Some (Date 2024 1 31 0)"
        "''Call at 10:30 rec:1w''" "Some ''2024-01-31''"]
  from t [THEN conjunct1, THEN mp, OF c, THEN mp, OF s, THEN mp, OF p]
    t [THEN conjunct2, THEN mp, OF c', THEN mp, OF p'] c s p c' p'
  show ?thesis by (intro conjI)
qed

section \<open>Advancing a date by days and minutes\<close>

lemma next_month_range:
  "next_month (y, m) = (y', m') \<Longrightarrow> 1 \<le> m \<Longrightarrow> 1 \<le> m' \<and> m' \<le> 12"
  by (auto simp: next_month_def split: if_splits)

lemma roll_days_Suc:
  "1 \<le> k \<Longrightarrow> 1 \<le> m \<Longrightarrow> m \<le> 12 \<Longrightarrow>
     roll_days y m (Suc k) t = calendar_successor (roll_days y m k t)"
proof (induction y m k t rule: roll_days.induct)
  case (1 y m d t)
  obtain y' m' where nm: "next_month (y, m) = (y', m')"
    by (cases "next_month (y, m)")
  show ?case
  proof (cases "days_in_month y m < d")
    case True
    from next_month_range [OF nm] "1.prems" have r: "1 \<le> m'" "m' \<le> 12" by simp_all
    from True have k: "1 \<le> d - days_in_month y m" by simp
    from True "1.prems" have "d \<noteq> 0" by simp
    from "1.IH" [OF this True nm [symmetric] k r]
    have ih: "roll_days y' m' (Suc (d - days_in_month y m)) t =
        calendar_successor (roll_days y' m' (d - days_in_month y m) t)" .
    from True have s: "Suc d - days_in_month y m = Suc (d - days_in_month y m)"
      by simp
    from True have "roll_days y m (Suc d) t = roll_days y' m' (Suc d - days_in_month y m) t"
      using roll_days_over [of y m "Suc d" t] nm by simp
    moreover from True have "roll_days y m d t = roll_days y' m' (d - days_in_month y m) t"
      using roll_days_over [of y m d t] nm by simp
    ultimately show ?thesis using ih s by simp
  next
    case False
    with "1.prems" have e: "roll_days y m d t = Date y m d t"
      by (simp add: roll_days_in_month)
    show ?thesis
    proof (cases "d < days_in_month y m")
      case True
      then have "roll_days y m (Suc d) t = Date y m (Suc d) t"
        by (simp add: roll_days_in_month)
      with True e show ?thesis
        by (simp add: calendar_successor_def)
    next
      case f: False
      with False have d: "d = days_in_month y m" by simp
      then have "roll_days y m (Suc d) t = roll_days y' m' 1 t"
        using roll_days_over [of y m "Suc d" t] nm by simp
      also have "\<dots> = Date y' m' 1 t"
        by (rule roll_days_in_month) (use days_in_month_pos in auto)
      finally show ?thesis
        using e d nm "1.prems"
        by (auto simp: calendar_successor_def next_month_def split: if_splits)
    qed
  qed
qed

lemma setDate_add_days:
  assumes "valid_date d"
  shows "setDate d (getDate d + n) = (calendar_successor ^^ n) d"
proof (induction n)
  case 0
  from assms show ?case
    by (cases d) (simp add: setDate_def getDate_def valid_date_def roll_days_in_month)
next
  case (Suc n)
  from assms have "1 \<le> day d + n" "1 \<le> month d" "month d \<le> 12"
    by (simp_all add: valid_date_def)
  from roll_days_Suc [OF this, of "year d" "minutes d"] Suc show ?case
    by (simp add: setDate_def getDate_def)
qed

lemma add_minutes_same_day:
  assumes "valid_date d" "minutes d + n < 1440"
  shows "add_minutes d n = Date (year d) (month d) (day d) (minutes d + n)"
  using assms
  by (simp add: add_minutes_def valid_date_def roll_days_in_month)

section \<open>Recurring\<close>

lemma recur_none:
  "due (items h (todoItem t)) = None \<or> rec (items h (todoItem t)) = None \<Longrightarrow>
     recur t h = Inr (None, h)"
  by (auto simp: recur_def Let_def split: option.splits)

lemma clone_ok:
  "\<exists>cl. new_TodoTxtItem (TodoTxtItem_toString (items h (todoItem t))) = Inr cl
     \<and> clone t h = Inr (new_Task (next_ref h), snd (alloc cl h))"
proof -
  obtain cl where "new_TodoTxtItem (TodoTxtItem_toString (items h (todoItem t))) = Inr cl"
    using new_TodoTxtItem_no_fault by blast
  then show ?thesis
    by (simp add: clone_def parse_def alloc_def)
qed

lemma recur_some:
  assumes "due (items h (todoItem t)) = Some d" "rec (items h (todoItem t)) = Some r"
  shows "\<exists>cl. clone t h = Inr (new_Task (next_ref h), snd (alloc cl h))
     \<and> recur t h = Inr (Some (new_Task (next_ref h)),
         \<lparr>items = (items h)(next_ref h :=
             cl\<lparr>due := Some (addTo r d), dueString := Some (dateToString (addTo r d))\<rparr>),
           next_ref = next_ref h + 1\<rparr>)"
proof -
  from clone_ok [of h t] obtain cl where
    c: "clone t h = Inr (new_Task (next_ref h), snd (alloc cl h))"
    by blast
  have "recur t h = Inr (Some (new_Task (next_ref h)),
         \<lparr>items = (items h)(next_ref h :=
             cl\<lparr>due := Some (addTo r d), dueString := Some (dateToString (addTo r d))\<rparr>),
           next_ref = next_ref h + 1\<rparr>)"
    by (simp add: recur_def assms c Let_def alloc_def put_def new_Task_def)
  with c show ?thesis by blast
qed

lemma addTo_days_weeks:
  assumes "valid_date d"
  shows "key r = ''d'' \<Longrightarrow> addTo r d = (calendar_successor ^^ amount r) d"
    and "key r = ''w'' \<Longrightarrow> addTo r d = (calendar_successor ^^ (7 * amount r)) d"
  using assms by (simp_all add: addTo_def moment_add_def setDate_add_days)

lemma addTo_minutes:
  assumes "valid_date d" "minutes d + amount r < 1440" "key r = ''m''"
  shows "addTo r d = Date (year d) (month d) (day d) (minutes d + amount r)"
    and "dateToString (addTo r d) = dateToString d"
proof -
  from assms show a: "addTo r d = Date (year d) (month d) (day d) (minutes d + amount r)"
    by (simp add: addTo_def moment_add_def add_minutes_same_day)
  show "dateToString (addTo r d) = dateToString d"
    unfolding a by (simp add: dateToString_def)
qed

text \<open>
  Claim C1. For a task due on 2024-01-31 at midnight with the recurrence \<open>1m\<close>, \<open>recur\<close>
  returns a new task that is due on 2024-01-31, one minute after midnight, with the due
  string \<open>2024-01-31\<close>: the date library reads the unit key \<open>m\<close> as minutes. One calendar
  month after 2024-01-31, which the claim asks for, is 2024-02-29; the source itself
  displays this recurrence as \<open>every month\<close>.
\<close>

theorem recur_month_key_adds_minutes:
  "(case recur (new_Task 0) (store_of (recurring_item 1 ''m'')) of
      Inr (Some t', h') \<Rightarrow> Some (due (items h' (todoItem t')), dueString (items h' (todoItem t')))
    | _ \<Rightarrow> None)
   = Some (Some (Date 2024 1 31 1), Some ''2024-01-31'')
   \<and> display \<lparr>amount = 1, key = ''m''\<rparr> = ''every month''"
proof -
  have y: "display \<lparr>amount = 1, key = ''m''\<rparr> = ''every month''"
    by code_simp
  let ?it = "recurring_item 1 ''m''"
  have c: "new_TodoTxtItem (TodoTxtItem_toString ?it) = Inr ?it"
    by code_simp
  have a: "addTo \<lparr>amount = 1, key = ''m''\<rparr> (Date 2024 1 31 0) = Date 2024 1 31 1"
    by code_simp
  have r: "dateToString (Date 2024 1 31 1) = ''2024-01-31''"
    by code_simp
  have i: "items (store_of ?it) (todoItem (new_Task 0)) = ?it"
    by (simp add: store_of_def)
  have d: "due ?it = Some (Date 2024 1 31 0)" and k: "rec ?it = Some \<lparr>amount = 1, key = ''m''\<rparr>"
    by (simp_all add: recurring_item_def)
  have "(case recur (new_Task 0) (store_of ?it) of
      Inr (Some t', h') \<Rightarrow> Some (due (items h' (todoItem t')), dueString (items h' (todoItem t')))
    | _ \<Rightarrow> None)
   = Some (Some (Date 2024 1 31 1), Some ''2024-01-31'')"
    unfolding recur_def clone_def parse_def i c Let_def d k
    by (simp add: a r alloc_def put_def new_Task_def del: One_nat_def)
  with y show ?thesis by (intro conjI)
qed



lemma recurring_item_fields:
  "due (items (store_of (recurring_item n k)) (todoItem (new_Task 0))) = Some (Date 2024 1 31 0)"
  "rec (items (store_of (recurring_item n k)) (todoItem (new_Task 0))) = Some \<lparr>amount = n, key = k\<rparr>"
  by (simp_all add: store_of_def recurring_item_def new_Task_def)




section \<open>The due date and its string\<close>

lemma create_due:
  assumes "dueDate taskData \<noteq> []" "create stringToDate now taskData h = Inr (t1, h1)"
  shows "due (items h1 (todoItem t1)) = Some (stringToDate (dueDate taskData))
     \<and> dueString (items h1 (todoItem t1)) = Some (dueDate taskData)"
  using assms
  by (auto simp: create_def Let_def alloc_def new_Task_def split: sum.splits if_splits)

lemma update_due:
  assumes "dueDate taskData \<noteq> []" "update stringToDate t taskData h = Inr h2"
  shows "due (items h2 (todoItem t)) = Some (stringToDate (dueDate taskData))
     \<and> dueString (items h2 (todoItem t)) = Some (dueDate taskData)"
  using assms
  by (auto simp: update_def Let_def put_def split: sum.splits if_splits)

lemma update_no_due:
  assumes "dueDate taskData = []" "update stringToDate t taskData h = Inr h3"
  shows "due (items h3 (todoItem t)) = None \<and> dueString (items h3 (todoItem t)) = None"
  using assms
  by (auto simp: update_def Let_def put_def split: sum.splits if_splits)

lemma postpone_due:
  assumes "due (items h (todoItem t)) \<noteq> None"
  shows "due (items (snd (postpone t h)) (todoItem t)) \<noteq> None
     \<and> due_agrees (items (snd (postpone t h)) (todoItem t))"
  using assms
  by (auto simp: postpone_def Let_def put_def due_agrees_def)

lemma recur_due:
  assumes "recur t h = Inr (Some t4, h4)"
  shows "due (items h4 (todoItem t4)) \<noteq> None \<and> due_agrees (items h4 (todoItem t4))"
proof -
  from assms obtain d r where a: "due (items h (todoItem t)) = Some d" "rec (items h (todoItem t)) = Some r"
    by (cases "due (items h (todoItem t))"; cases "rec (items h (todoItem t))")
       (auto simp: recur_none)
  from recur_some [OF a] assms show ?thesis
    by (auto simp: due_agrees_def new_Task_def)
qed

text \<open>
  Claim C10, as amended. Every operation that sets the due date sets the due string with
  it. \<open>create\<close> and \<open>update\<close> with a non-empty due date string store the date read from the
  string together with the string itself, which is the rendering of that date whenever
  rendering the date read gives the string back. \<open>update\<close> with an empty due date string
  removes both. \<open>postpone\<close> on a task with a due date, and \<open>recur\<close>, store the new date
  together with its rendering.
\<close>

theorem due_and_dueString_together:
  "(dueDate taskData \<noteq> [] \<longrightarrow> create stringToDate now taskData h = Inr (t1, h1) \<longrightarrow>
      due (items h1 (todoItem t1)) = Some (stringToDate (dueDate taskData))
      \<and> dueString (items h1 (todoItem t1)) = Some (dueDate taskData)
      \<and> (dateToString (stringToDate (dueDate taskData)) = dueDate taskData \<longrightarrow>
           due_agrees (items h1 (todoItem t1))))
   \<and> (dueDate taskData \<noteq> [] \<longrightarrow> update stringToDate t taskData h = Inr h2 \<longrightarrow>
      due (items h2 (todoItem t)) = Some (stringToDate (dueDate taskData))
      \<and> dueString (items h2 (todoItem t)) = Some (dueDate taskData)
      \<and> (dateToString (stringToDate (dueDate taskData)) = dueDate taskData \<longrightarrow>
           due_agrees (items h2 (todoItem t))))
   \<and> (dueDate taskData = [] \<longrightarrow> update stringToDate t taskData h = Inr h3 \<longrightarrow>
      due (items h3 (todoItem t)) = None \<and> dueString (items h3 (todoItem t)) = None)
   \<and> (due (items h (todoItem t)) \<noteq> None \<longrightarrow>
      due (items (snd (postpone t h)) (todoItem t)) \<noteq> None
      \<and> due_agrees (items (snd (postpone t h)) (todoItem t)))
   \<and> (recur t h = Inr (Some t4, h4) \<longrightarrow>
      due (items h4 (todoItem t4)) \<noteq> None \<and> due_agrees (items h4 (todoItem t4)))"
proof (intro conjI impI)
  assume a: "dueDate taskData \<noteq> []" "create stringToDate now taskData h = Inr (t1, h1)"
  from create_due [OF a]
  show "due (items h1 (todoItem t1)) = Some (stringToDate (dueDate taskData))"
    and "dueString (items h1 (todoItem t1)) = Some (dueDate taskData)"
    by simp_all
  assume "dateToString (stringToDate (dueDate taskData)) = dueDate taskData"
  with create_due [OF a] show "due_agrees (items h1 (todoItem t1))"
    by (simp add: due_agrees_def)
next
  assume a: "dueDate taskData \<noteq> []" "update stringToDate t taskData h = Inr h2"
  from update_due [OF a]
  show "due (items h2 (todoItem t)) = Some (stringToDate (dueDate taskData))"
    and "dueString (items h2 (todoItem t)) = Some (dueDate taskData)"
    by simp_all
  assume "dateToString (stringToDate (dueDate taskData)) = dueDate taskData"
  with update_due [OF a] show "due_agrees (items h2 (todoItem t))"
    by (simp add: due_agrees_def)
next
  assume a: "dueDate taskData = []" "update stringToDate t taskData h = Inr h3"
  from update_no_due [OF a]
  show "due (items h3 (todoItem t)) = None" and "dueString (items h3 (todoItem t)) = None"
    by simp_all
next
  assume a: "due (items h (todoItem t)) \<noteq> None"
  from postpone_due [OF a]
  show "due (items (snd (postpone t h)) (todoItem t)) \<noteq> None"
    and "due_agrees (items (snd (postpone t h)) (todoItem t))"
    by simp_all
next
  assume a: "recur t h = Inr (Some t4, h4)"
  from recur_due [OF a]
  show "due (items h4 (todoItem t4)) \<noteq> None" and "due_agrees (items h4 (todoItem t4))"
    by simp_all
qed

text \<open>
  Claim C10, as stated, fails: the due date string \<open>2024-02-30\<close> matches the pattern of the
  form; \<open>create\<close> stores it as the due string, next to a due date whose rendering is
  \<open>2024-03-01\<close>.
\<close>

theorem due_and_dueString_counterexample:
  "(case create stringToDate_iso (Date 2024 3 1 0)
      \<lparr>data_text = ''Buy milk'', project = [], data_priority = Some [],
       dueDate = ''2024-02-30'', recurrence = []\<rparr> empty_store of
      Inl e \<Rightarrow> None
    | Inr (t, h') \<Rightarrow> Some (due (items h' (todoItem t)), dueString (items h' (todoItem t))))
   = Some (Some (Date 2024 3 1 0), Some ''2024-02-30'')
   \<and> dateToString (Date 2024 3 1 0) = ''2024-03-01''"
proof -
  have t: "new_TodoTxtItem ''Buy milk'' = Inr (blank_item\<lparr>text' := ''Buy milk''\<rparr>)"
    by code_simp
  have s: "stringToDate_iso ''2024-02-30'' = Date 2024 3 1 0"
    by code_simp
  have r: "dateToString (Date 2024 3 1 0) = ''2024-03-01''"
    by code_simp
  have "(case create stringToDate_iso (Date 2024 3 1 0)
      \<lparr>data_text = ''Buy milk'', project = [], data_priority = Some [],
       dueDate = ''2024-02-30'', recurrence = []\<rparr> empty_store of
      Inl e \<Rightarrow> None
    | Inr (t, h') \<Rightarrow> Some (due (items h' (todoItem t)), dueString (items h' (todoItem t))))
   = Some (Some (stringToDate_iso ''2024-02-30''), Some ''2024-02-30'')"
    by (simp add: create_def t Let_def truthy_def alloc_def new_Task_def empty_store_def)
  with r show ?thesis
    unfolding s by (intro conjI)
qed


text \<open>
  The due date string \<open>2024-01-31\<close> is the rendering of the date read from it: after
  \<open>create\<close> and \<open>update\<close> the due date and the due string agree, as after \<open>postpone\<close> and
  \<open>recur\<close> on a task due on that day.
\<close>

theorem due_and_dueString_together_witness:
  "dueDate \<lparr>data_text = ''Buy milk'', project = [], data_priority = Some [],
       dueDate = ''2024-01-31'', recurrence = []\<rparr> \<noteq> []
   \<and> dateToString (stringToDate_iso ''2024-01-31'') = ''2024-01-31''
   \<and> (\<exists>t1 h1. create stringToDate_iso (Date 2024 3 1 0)
          \<lparr>data_text = ''Buy milk'', project = [], data_priority = Some [],
           dueDate = ''2024-01-31'', recurrence = []\<rparr> empty_store = Inr (t1, h1)
        \<and> due_agrees (items h1 (todoItem t1)))
   \<and> (\<exists>h2. update stringToDate_iso (new_Task 0)
          \<lparr>data_text = ''Buy milk'', project = [], data_priority = Some [],
           dueDate = ''2024-01-31'', recurrence = []\<rparr> (store_of blank_item) = Inr h2
        \<and> due_agrees (items h2 (todoItem (new_Task 0))))
   \<and> dueDate \<lparr>data_text = ''Buy milk'', project = [], data_priority = Some [],
       dueDate = [], recurrence = []\<rparr> = []
   \<and> (\<exists>h3. update stringToDate_iso (new_Task 0)
          \<lparr>data_text = ''Buy milk'', project = [], data_priority = Some [],
           dueDate = [], recurrence = []\<rparr> (store_of (recurring_item 1 ''m'')) = Inr h3
        \<and> due (items h3 (todoItem (new_Task 0))) = None
        \<and> dueString (items h3 (todoItem (new_Task 0))) = None)
   \<and> due (items (store_of (recurring_item 1 ''m'')) (todoItem (new_Task 0))) \<noteq> None
   \<and> due_agrees (items (snd (postpone (new_Task 0) (store_of (recurring_item 1 ''m''))))
         (todoItem (new_Task 0)))
   \<and> (\<exists>t4 h4. recur (new_Task 0) (store_of (recurring_item 1 ''m'')) = Inr (Some t4, h4)
        \<and> due_agrees (items h4 (todoItem t4)))"
proof -
  let ?d = "\<lparr>data_text = ''Buy milk'', project = [], data_priority = Some [],
       dueDate = ''2024-01-31'', recurrence = []\<rparr>"
  let ?e = "\<lparr>data_text = ''Buy milk'', project = [], data_priority = Some [],
       dueDate = [], recurrence = []\<rparr>"
  let ?h = "store_of (recurring_item 1 ''m'')"
  have n: "dueDate ?d \<noteq> []" and dd: "dueDate ?d = ''2024-01-31''" and e: "dueDate ?e = []"
    by simp_all
  have rt: "dateToString (stringToDate_iso ''2024-01-31'') = ''2024-01-31''"
    by code_simp
  then have rt': "dateToString (stringToDate_iso (dueDate ?d)) = dueDate ?d"
    unfolding dd .
  have m: "recurrence ?d = [] \<or> match_RECURRENCE_REGEXP (recurrence ?d) \<noteq> None"
    and m': "recurrence ?e = [] \<or> match_RECURRENCE_REGEXP (recurrence ?e) \<noteq> None"
    by simp_all
  from create_ok [OF m] obtain t1 h1
    where c: "create stringToDate_iso (Date 2024 3 1 0) ?d empty_store = Inr (t1, h1)"
    by blast
  from due_and_dueString_together [of ?d stringToDate_iso "Date 2024 3 1 0" empty_store t1 h1,
      THEN conjunct1, THEN mp, OF n, THEN mp, OF c, THEN conjunct2, THEN conjunct2, THEN mp, OF rt']
  have "due_agrees (items h1 (todoItem t1))" .
  with c have "create stringToDate_iso (Date 2024 3 1 0) ?d empty_store = Inr (t1, h1)
      \<and> due_agrees (items h1 (todoItem t1))" ..
  then have 1: "\<exists>t1 h1. create stringToDate_iso (Date 2024 3 1 0) ?d empty_store = Inr (t1, h1)
      \<and> due_agrees (items h1 (todoItem t1))"
    by - (rule exI [where x = t1], rule exI [where x = h1], assumption)
  from update_ok [OF m] obtain h2
    where u: "update stringToDate_iso (new_Task 0) ?d (store_of blank_item) = Inr h2"
    by blast
  from due_and_dueString_together [of ?d stringToDate_iso _ "store_of blank_item" _ _ "new_Task 0" h2,
      THEN conjunct2, THEN conjunct1, THEN mp, OF n, THEN mp, OF u, THEN conjunct2, THEN conjunct2,
      THEN mp, OF rt']
  have "due_agrees (items h2 (todoItem (new_Task 0)))" .
  with u have "update stringToDate_iso (new_Task 0) ?d (store_of blank_item) = Inr h2
      \<and> due_agrees (items h2 (todoItem (new_Task 0)))" ..
  then have 2: "\<exists>h2. update stringToDate_iso (new_Task 0) ?d (store_of blank_item) = Inr h2
      \<and> due_agrees (items h2 (todoItem (new_Task 0)))"
    by - (rule exI [where x = h2], assumption)
  from update_ok [OF m'] obtain h3
    where u3: "update stringToDate_iso (new_Task 0) ?e ?h = Inr h3"
    by blast
  from due_and_dueString_together [of ?e stringToDate_iso _ ?h _ _ "new_Task 0" _ h3,
      THEN conjunct2, THEN conjunct2, THEN conjunct1, THEN mp, OF e, THEN mp, OF u3]
  have "due (items h3 (todoItem (new_Task 0))) = None
      \<and> dueString (items h3 (todoItem (new_Task 0))) = None" .
  with u3 have "update stringToDate_iso (new_Task 0) ?e ?h = Inr h3
      \<and> due (items h3 (todoItem (new_Task 0))) = None
      \<and> dueString (items h3 (todoItem (new_Task 0))) = None" ..
  then have 3: "\<exists>h3. update stringToDate_iso (new_Task 0) ?e ?h = Inr h3
      \<and> due (items h3 (todoItem (new_Task 0))) = None
      \<and> dueString (items h3 (todoItem (new_Task 0))) = None"
    by - (rule exI [where x = h3], assumption)
  have p: "due (items ?h (todoItem (new_Task 0))) \<noteq> None"
    unfolding recurring_item_fields(1) by simp
  from due_and_dueString_together [of _ _ _ ?h _ _ "new_Task 0", THEN conjunct2, THEN conjunct2,
      THEN conjunct2, THEN conjunct1, THEN mp, OF p, THEN conjunct2]
  have 4: "due_agrees (items (snd (postpone (new_Task 0) ?h)) (todoItem (new_Task 0)))" .
  from recur_some [OF recurring_item_fields(1) recurring_item_fields(2), of 1 "''m''"]
  obtain t4 h4 where r: "recur (new_Task 0) ?h = Inr (Some t4, h4)"
    by blast
  from due_and_dueString_together [of _ _ _ ?h _ _ "new_Task 0" _ _ t4 h4, THEN conjunct2,
      THEN conjunct2, THEN conjunct2, THEN conjunct2, THEN mp, OF r, THEN conjunct2]
  have "due_agrees (items h4 (todoItem t4))" .
  with r have "recur (new_Task 0) ?h = Inr (Some t4, h4) \<and> due_agrees (items h4 (todoItem t4))" ..
  then have 5: "\<exists>t4 h4. recur (new_Task 0) ?h = Inr (Some t4, h4)
      \<and> due_agrees (items h4 (todoItem t4))"
    by - (rule exI [where x = t4], rule exI [where x = h4], assumption)
  from n rt 1 2 e 3 p 4 5 show ?thesis by (intro conjI)
qed

section \<open>Parsing a serialization\<close>

lemma update_text_with_tag:
  "update stringToDate_iso (new_Task 0)
     \<lparr>data_text = ''Pay xrec:1d'', project = [], data_priority = Some [], dueDate = [],
      recurrence = []\<rparr> (store_of blank_item)
   = Inr (put 0 (blank_item\<lparr>text' := ''Pay xrec:1d''\<rparr>) (store_of blank_item))"
  by (simp add: update_def Let_def truthy_def new_Task_def store_of_def blank_item_def)

text \<open>
  Claim C2. After an update to the text \<open>Pay xrec:1d\<close>, without recurrence, the task has
  this text and no recurrence; it holds no recurrence tag, since a tag is a token of its
  own. Its serialization parses back to a task with the recurrence \<open>1d\<close>: the recurrence
  pattern asks for white space or the end of the line after a tag, and for nothing before
  it, so the extractor takes \<open>rec:1d\<close> out of the word \<open>xrec:1d\<close>.
\<close>

theorem round_trip_tag_inside_word:
  "(case update stringToDate_iso (new_Task 0)
      \<lparr>data_text = ''Pay xrec:1d'', project = [], data_priority = Some [], dueDate = [],
       recurrence = []\<rparr> (store_of blank_item) of
      Inl e \<Rightarrow> None
    | Inr h \<Rightarrow>
        (case clone (new_Task 0) h of
           Inl e \<Rightarrow> None
         | Inr (t', h') \<Rightarrow>
             Some (text' (items h' (todoItem (new_Task 0))), rec (items h' (todoItem (new_Task 0))),
                   rec (items h' (todoItem t')))))
   = Some (''Pay xrec:1d'', None, Some \<lparr>amount = 1, key = ''d''\<rparr>)
   \<and> parsingFunction ''Pay xrec:1d''
     = Inr (Some \<lparr>amount = 1, key = ''d''\<rparr>, Some ''Pay x'', Some ''1d'')"
proof -
  let ?it = "blank_item\<lparr>text' := ''Pay xrec:1d''\<rparr>"
  have p: "parsingFunction ''Pay xrec:1d''
     = Inr (Some \<lparr>amount = 1, key = ''d''\<rparr>, Some ''Pay x'', Some ''1d'')"
    by code_simp
  have c: "new_TodoTxtItem (TodoTxtItem_toString ?it) =
      Inr (blank_item\<lparr>text' := ''Pay x'', rec := Some \<lparr>amount = 1, key = ''d''\<rparr>,
        recString := Some ''1d''\<rparr>)"
    by code_simp
  have i: "items (put 0 ?it (store_of blank_item)) (todoItem (new_Task 0)) = ?it"
    by (simp add: put_def new_Task_def)
  have "(case update stringToDate_iso (new_Task 0)
      \<lparr>data_text = ''Pay xrec:1d'', project = [], data_priority = Some [], dueDate = [],
       recurrence = []\<rparr> (store_of blank_item) of
      Inl e \<Rightarrow> None
    | Inr h \<Rightarrow>
        (case clone (new_Task 0) h of
           Inl e \<Rightarrow> None
         | Inr (t', h') \<Rightarrow>
             Some (text' (items h' (todoItem (new_Task 0))), rec (items h' (todoItem (new_Task 0))),
                   rec (items h' (todoItem t')))))
   = Some (''Pay xrec:1d'', None, Some \<lparr>amount = 1, key = ''d''\<rparr>)"
  proof -
    let ?h = "put 0 ?it (store_of blank_item)"
    let ?cl = "blank_item\<lparr>text' := ''Pay x'', rec := Some \<lparr>amount = 1, key = ''d''\<rparr>,
        recString := Some ''1d''\<rparr>"
    have k: "clone (new_Task 0) ?h = Inr (new_Task (next_ref ?h), snd (alloc ?cl ?h))"
      unfolding clone_def parse_def i c by (simp add: alloc_def)
    show ?thesis
      unfolding update_text_with_tag sum.case k prod.case
      by (simp add: alloc_def put_def new_Task_def store_of_def blank_item_def del: One_nat_def)
  qed
  with p show ?thesis by (intro conjI)
qed

end
